theory Spec2Isabelle
  imports Complex_Main "HOL-Library.Sublist"
begin

section \<open>Trip records and the row filter of \<open>load_transform_file\<close>\<close>

text \<open>
  A value of a float64 column. Comparison of two doubles is exact comparison of the
  numbers they denote, so a finite double is represented by the real number it denotes;
  the two infinities and NaN are kept apart, because every comparison with NaN is false.
\<close>

datatype f64 = Finite real | PosInf | NegInf | NaN

text \<open>\<open>x > c\<close> for a column value \<open>x\<close> and a finite scalar \<open>c\<close>.\<close>

fun f64_gt :: "f64 \<Rightarrow> real \<Rightarrow> bool" where
  "f64_gt (Finite x) c = (c < x)"
| "f64_gt PosInf c = True"
| "f64_gt NegInf c = False"
| "f64_gt NaN c = False"

text \<open>
  The Python literal \<open>0.1\<close> is the double nearest to one tenth, which is
  \<open>3602879701896397 / 2^55\<close>; the literal \<open>2.5\<close> is exact.
\<close>

definition lit_0_1 :: real where
  "lit_0_1 = 3602879701896397 / 36028797018963968"

definition lit_2_5 :: real where
  "lit_2_5 = 5 / 2"

text \<open>
  One row of the data frame after the column selection of line 51. The two timestamp
  columns have the type \<open>'ts\<close> (datetime64 when read, \<open>string\<close> after
  \<open>astype(str)\<close>).
\<close>

record 'ts trip =
  tpep_pickup_datetime :: 'ts
  tpep_dropoff_datetime :: 'ts
  PULocationID :: int
  DOLocationID :: int
  trip_distance :: f64
  fare_amount :: f64

definition bronx :: "int list" where
  "bronx = [3, 18, 20, 31, 32, 46, 47, 51, 58, 59, 60, 69, 78, 81, 94, 119, 126, 136,
            147, 159, 167, 168, 169, 174, 182, 183, 184, 185, 199, 200, 208, 212, 213,
            220, 235, 240, 241, 242, 247, 248, 250, 254, 259]"

text \<open>\<open>Series.isin(values)\<close>: the boolean mask of the column.\<close>

definition isin :: "int list \<Rightarrow> int list \<Rightarrow> bool list" where
  "isin col vals = map (\<lambda>v. v \<in> set vals) col"

text \<open>\<open>mask1 & mask2\<close> on two masks over the same index.\<close>

definition mask_and :: "bool list \<Rightarrow> bool list \<Rightarrow> bool list" where
  "mask_and m1 m2 = map (\<lambda>(a, b). a \<and> b) (zip m1 m2)"

text \<open>\<open>column > scalar\<close>: the boolean mask of the column.\<close>

definition gt_scalar :: "f64 list \<Rightarrow> real \<Rightarrow> bool list" where
  "gt_scalar col c = map (\<lambda>x. f64_gt x c) col"

text \<open>\<open>df[mask]\<close>: the rows whose mask entry is true, in their order.\<close>

definition getitem_mask :: "'a list \<Rightarrow> bool list \<Rightarrow> 'a list" where
  "getitem_mask df msk = map fst (filter snd (zip df msk))"

text \<open>Lines 55 to 57: three selections, each on the result of the one before.\<close>

definition filter_rows :: "'ts trip list \<Rightarrow> 'ts trip list" where
  "filter_rows trips =
     (let trips1 = getitem_mask trips
                     (mask_and (isin (map PULocationID trips) bronx)
                               (isin (map DOLocationID trips) bronx));
          trips2 = getitem_mask trips1 (gt_scalar (map trip_distance trips1) lit_0_1);
          trips3 = getitem_mask trips2 (gt_scalar (map fare_amount trips2) lit_2_5)
      in trips3)"

text \<open>Lines 59 and 60: both timestamp columns become strings.\<close>

definition astype_str :: "('ts \<Rightarrow> string) \<Rightarrow> 'ts trip \<Rightarrow> string trip" where
  "astype_str str r =
     \<lparr> tpep_pickup_datetime = str (tpep_pickup_datetime r),
       tpep_dropoff_datetime = str (tpep_dropoff_datetime r),
       PULocationID = PULocationID r,
       DOLocationID = DOLocationID r,
       trip_distance = trip_distance r,
       fare_amount = fare_amount r \<rparr>"

text \<open>The Filter Engine of the specification: lines 55 to 60.\<close>

definition filter_engine :: "('ts \<Rightarrow> string) \<Rightarrow> 'ts trip list \<Rightarrow> string trip list" where
  "filter_engine str trips = map (astype_str str) (filter_rows trips)"

section \<open>The name and the content of the staged file\<close>

definition bslash :: char where
  "bslash = CHR 0x5C"

text \<open>
  The paths of the source are Windows paths, so \<open>os.path\<close> is \<open>ntpath\<close>: both
  the slash and the backslash separate components. \<open>basename\<close> is the part after the
  last separator of what follows a drive letter and its colon. (The other roots that
  \<open>ntpath\<close> knows, UNC and device paths, are not modelled.)
\<close>

definition is_sep :: "char \<Rightarrow> bool" where
  "is_sep c = (c = CHR ''/'' \<or> c = bslash)"

definition splitdrive_rest :: "string \<Rightarrow> string" where
  "splitdrive_rest p = (if 2 \<le> length p \<and> p ! 1 = CHR '':'' then drop 2 p else p)"

definition basename :: "string \<Rightarrow> string" where
  "basename p = rev (takeWhile (\<lambda>c. \<not> is_sep c) (rev (splitdrive_rest p)))"

text \<open>
  \<open>s.replace(old, new)\<close>: every occurrence of \<open>old\<close>, found from the left and not
  overlapping an occurrence already replaced, becomes \<open>new\<close>. With an empty \<open>old\<close>
  Python puts \<open>new\<close> before every character and at the end.
\<close>

function replace_str :: "string \<Rightarrow> string \<Rightarrow> string \<Rightarrow> string" where
  "replace_str [] old new = (if old = [] then new else [])"
| "replace_str (c # cs) old new =
     (if old = [] then new @ c # replace_str cs old new
      else if prefix old (c # cs) then new @ replace_str (drop (length old) (c # cs)) old new
      else c # replace_str cs old new)"
  by pat_completeness auto
termination
  by (relation "measure (\<lambda>(s, old, new). length s)") auto

text \<open>Line 65.\<close>

definition csv_filename :: "string \<Rightarrow> string" where
  "csv_filename file_path = replace_str (basename file_path) ''.parquet'' ''.csv''"

text \<open>
  \<open>os.path.join(dir, name)\<close> for a directory that does not end with a separator and a
  name without a root, which is what line 66 joins.
\<close>

definition path_join :: "string \<Rightarrow> string \<Rightarrow> string" where
  "path_join d n = d @ bslash # n"

fun win_path :: "string list \<Rightarrow> string" where
  "win_path [] = []"
| "win_path [c] = c"
| "win_path (c # cs) = c @ bslash # win_path cs"

text \<open>Line 63.\<close>

definition neo4j_import_dir :: string where
  "neo4j_import_dir =
     win_path [''C:'', ''Users'', ''My PC'', ''.Neo4jDesktop'', ''relate-data'', ''dbmss'',
               ''dbms-6d74b52b-117b-4ad4-b766-e235cfc2a1b2'', ''import'']"

text \<open>
  What the libraries do to single values is not code of this repository and is taken as
  a parameter: how pandas writes a timestamp, an integer and a float as text, and how
  Cypher's \<open>toInteger\<close> and \<open>toFloat\<close> read text (\<open>None\<close> is Cypher's null).
\<close>

record 'ts lib =
  str_ts :: "'ts \<Rightarrow> string"
  fmt_int :: "int \<Rightarrow> string"
  fmt_float :: "f64 \<Rightarrow> string"
  toInteger :: "string \<Rightarrow> int option"
  toFloat :: "string \<Rightarrow> f64 option"

text \<open>A header-labelled, row-oriented text file: the header line and the data lines, by cell.\<close>

record csv =
  csv_header :: "string list"
  csv_rows :: "string list list"

definition columns :: "string list" where
  "columns = [''tpep_pickup_datetime'', ''tpep_dropoff_datetime'', ''PULocationID'',
              ''DOLocationID'', ''trip_distance'', ''fare_amount'']"

text \<open>\<open>trips.to_csv(save_loc, index=False)\<close>: the column names, then one line per row.\<close>

definition to_csv :: "('ts, 'x) lib_scheme \<Rightarrow> string trip list \<Rightarrow> csv" where
  "to_csv L trips =
     \<lparr> csv_header = columns,
       csv_rows = map (\<lambda>r. [tpep_pickup_datetime r, tpep_dropoff_datetime r,
                             fmt_int L (PULocationID r), fmt_int L (DOLocationID r),
                             fmt_float L (trip_distance r), fmt_float L (fare_amount r)])
                      trips \<rparr>"

section \<open>The graph store\<close>

text \<open>
  The store is the external collaborator behind the driver. Its state is what the
  statements of the source read and write: the uniqueness constraints (label and
  property), the nodes (an identity the store gives, a label, the properties), and the
  relationships. A node has one label here, as every node the source writes has.
\<close>

datatype pv = PInt int | PFloat f64 | PStr string

record node =
  node_id :: nat
  node_label :: string
  node_props :: "(string \<times> pv) list"

record rel =
  rel_src :: nat
  rel_type :: string
  rel_dst :: nat

record store =
  constraints :: "(string \<times> string) list"
  nodes :: "node list"
  rels :: "rel list"
  next_id :: nat

text \<open>The operations of one attempt that can raise, in the order of the source.\<close>

datatype step =
    OpenDriver | VerifyConnectivity
  | ConstraintPickup | ConstraintDropoff | ConstraintTrip
  | ReadTable | SelectColumns | FilterRows | AsTypeStr | MakeDirs | ToCsv
  | Wipe | InsertData | CloseDriver

text \<open>
  An exception. \<open>Fault st\<close> is an exception that the environment raises in the
  operation \<open>st\<close> (the store is unreachable, a write to disk fails, a column is
  missing, and so on); the others are raised by the store or the reader for the reason
  they name.
\<close>

datatype error =
    Fault step
  | FileNotFound string
  | ConstraintCreationFailed string string
  | ConstraintValidationFailed string string
  | MergeNullProperty string
  | ExternalResourceFailed string

text \<open>
  \<open>session.execute_write(work)\<close>: the work runs on the store inside one transaction,
  which commits when the work returns and rolls back when it raises.
\<close>

definition execute_write :: "(store \<Rightarrow> error + store) \<Rightarrow> store \<Rightarrow> (error + unit) \<times> store" where
  "execute_write work g =
     (case work g of Inl e \<Rightarrow> (Inl e, g) | Inr g' \<Rightarrow> (Inr (), g'))"

text \<open>The values of property \<open>k\<close> on the nodes labelled \<open>l\<close> that have it.\<close>

definition prop_values :: "string \<Rightarrow> string \<Rightarrow> node list \<Rightarrow> pv list" where
  "prop_values l k ns =
     List.map_filter (\<lambda>n. if node_label n = l then map_of (node_props n) k else None) ns"

text \<open>
  \<open>CREATE CONSTRAINT IF NOT EXISTS FOR (n:l) REQUIRE n.k IS UNIQUE\<close>: nothing happens
  when the constraint exists; otherwise it is created, which the store refuses when the
  nodes it holds already break it.
\<close>

definition create_constraint_if_not_exists :: "string \<Rightarrow> string \<Rightarrow> store \<Rightarrow> error + store" where
  "create_constraint_if_not_exists l k g =
     (if (l, k) \<in> set (constraints g) then Inr g
      else if \<not> distinct (prop_values l k (nodes g)) then Inl (ConstraintCreationFailed l k)
      else Inr (g\<lparr>constraints := constraints g @ [(l, k)]\<rparr>))"

text \<open>\<open>MATCH (n) DETACH DELETE n\<close>: every node goes, and every relationship with it.\<close>

definition detach_delete_all :: "store \<Rightarrow> error + store" where
  "detach_delete_all g = Inr (g\<lparr>nodes := [], rels := []\<rparr>)"

text \<open>
  A new node with label \<open>l\<close> and properties \<open>ps\<close>. The store checks the uniqueness
  constraints on \<open>l\<close> at the write: a property under a constraint must not have the
  value it has on another node with that label.
\<close>

definition breaks_unique :: "string \<Rightarrow> (string \<times> pv) list \<Rightarrow> store \<Rightarrow> string option" where
  "breaks_unique l ps g =
     map_option snd
       (find (\<lambda>(l', k). l' = l \<and>
                 (case map_of ps k of None \<Rightarrow> False
                  | Some v \<Rightarrow> v \<in> set (prop_values l k (nodes g))))
             (constraints g))"

definition create_node :: "string \<Rightarrow> (string \<times> pv) list \<Rightarrow> store \<Rightarrow> error + (store \<times> nat)" where
  "create_node l ps g =
     (case breaks_unique l ps g of
        Some k \<Rightarrow> Inl (ConstraintValidationFailed l k)
      | None \<Rightarrow>
          Inr (g\<lparr>nodes := nodes g @ [\<lparr>node_id = next_id g, node_label = l, node_props = ps\<rparr>],
                  next_id := Suc (next_id g)\<rparr>,
               next_id g))"

text \<open>
  \<open>MERGE (n:l {id: v})\<close>: the nodes labelled \<open>l\<close> whose \<open>id\<close> is \<open>v\<close>, all of them;
  when there is none, one is created. The variable is bound to each node found, so the
  clauses after it run once for each.
\<close>

definition match_nodes :: "string \<Rightarrow> int \<Rightarrow> store \<Rightarrow> nat list" where
  "match_nodes l v g =
     map node_id
       (filter (\<lambda>n. node_label n = l \<and> map_of (node_props n) ''id'' = Some (PInt v)) (nodes g))"

definition merge_node :: "string \<Rightarrow> int \<Rightarrow> store \<Rightarrow> error + (store \<times> nat list)" where
  "merge_node l v g =
     (if match_nodes l v g \<noteq> [] then Inr (g, match_nodes l v g)
      else case create_node l [(''id'', PInt v)] g of
             Inl e \<Rightarrow> Inl e
           | Inr (g', n) \<Rightarrow> Inr (g', [n]))"

text \<open>\<open>MERGE (a)-[:ty]->(b)\<close> for bound \<open>a\<close> and \<open>b\<close>: created unless it is there.\<close>

definition merge_rel :: "nat \<Rightarrow> string \<Rightarrow> nat \<Rightarrow> store \<Rightarrow> store" where
  "merge_rel a ty b g =
     (if \<lparr>rel_src = a, rel_type = ty, rel_dst = b\<rparr> \<in> set (rels g) then g
      else g\<lparr>rels := rels g @ [\<lparr>rel_src = a, rel_type = ty, rel_dst = b\<rparr>]\<rparr>)"

section \<open>The load query of \<open>insert_data\<close>\<close>

text \<open>
  \<open>LOAD CSV WITH HEADERS ... AS row\<close> gives one map from column name to text for each
  data line; a column the line does not have is null.
\<close>

definition row_of :: "string list \<Rightarrow> string list \<Rightarrow> string \<Rightarrow> string option" where
  "row_of hdr cells = map_of (zip hdr cells)"

text \<open>Lines 85 to 90: a property whose value is null is not stored.\<close>

definition trip_props :: "('ts, 'x) lib_scheme \<Rightarrow> (string \<Rightarrow> string option) \<Rightarrow> (string \<times> pv) list" where
  "trip_props L row =
     List.map_filter (\<lambda>(k, v). map_option (Pair k) v)
       [(''pickup_datetime'', map_option PStr (row ''tpep_pickup_datetime'')),
        (''dropoff_datetime'', map_option PStr (row ''tpep_dropoff_datetime'')),
        (''trip_distance'', map_option PFloat (Option.bind (row ''trip_distance'') (toFloat L))),
        (''fare_amount'', map_option PFloat (Option.bind (row ''fare_amount'') (toFloat L)))]"

text \<open>
  Lines 85 to 92, for each binding of \<open>p\<close> and \<open>d\<close>: a new Trip node, and the two
  relationships merged on it.
\<close>

fun create_trips :: "(string \<times> pv) list \<Rightarrow> (nat \<times> nat) list \<Rightarrow> store \<Rightarrow> error + store" where
  "create_trips ps [] g = Inr g"
| "create_trips ps ((p, d) # pds) g =
     (case create_node ''Trip'' ps g of
        Inl e \<Rightarrow> Inl e
      | Inr (g1, t) \<Rightarrow>
          create_trips ps pds
            (merge_rel t ''ENDS_TRIP'' d (merge_rel p ''STARTS_TRIP'' t g1)))"

text \<open>
  Lines 83 to 92 for one row. \<open>MERGE\<close> on a null property value is an error of the
  store.
\<close>

definition load_row :: "('ts, 'x) lib_scheme \<Rightarrow> (string \<Rightarrow> string option) \<Rightarrow> store \<Rightarrow> error + store" where
  "load_row L row g =
     (case Option.bind (row ''PULocationID'') (toInteger L) of
        None \<Rightarrow> Inl (MergeNullProperty ''PickupLocation'')
      | Some pz \<Rightarrow>
         (case merge_node ''PickupLocation'' pz g of
            Inl e \<Rightarrow> Inl e
          | Inr (g1, ps) \<Rightarrow>
             (case Option.bind (row ''DOLocationID'') (toInteger L) of
                None \<Rightarrow> Inl (MergeNullProperty ''DropoffLocation'')
              | Some dz \<Rightarrow>
                 (case merge_node ''DropoffLocation'' dz g1 of
                    Inl e \<Rightarrow> Inl e
                  | Inr (g2, ds) \<Rightarrow> create_trips (trip_props L row) (List.product ps ds) g2))))"

fun load_rows :: "('ts, 'x) lib_scheme \<Rightarrow> (string \<Rightarrow> string option) list \<Rightarrow> store \<Rightarrow> error + store" where
  "load_rows L [] g = Inr g"
| "load_rows L (row # rows) g =
     (case load_row L row g of Inl e \<Rightarrow> Inl e | Inr g' \<Rightarrow> load_rows L rows g')"

text \<open>
  \<open>insert_data(tx, file_name)\<close>: one query. The store resolves the name against its
  import directory, which is the directory of line 63, and reads the file there
  (\<open>fs\<close> is the file system at that moment).
\<close>

definition insert_data ::
  "('ts, 'x) lib_scheme \<Rightarrow> (string \<Rightarrow> csv option) \<Rightarrow> string \<Rightarrow> store \<Rightarrow> error + store" where
  "insert_data L fs file_name g =
     (case fs (path_join neo4j_import_dir file_name) of
        None \<Rightarrow> Inl (ExternalResourceFailed file_name)
      | Some f \<Rightarrow> load_rows L (map (row_of (csv_header f)) (csv_rows f)) g)"

section \<open>The pipeline\<close>

text \<open>What the program prints.\<close>

datatype printed =
    CsvSaved string
  | DataLoaded
  | AttemptError nat nat error

text \<open>The stages of the specification, for the history of a run.\<close>

datatype stage = CONSTRAINTS_READY | WIPE_DONE | FILTERED | STAGED | LOADED

text \<open>
  Everything the program reads and changes: the columnar files it can read (by path,
  already as rows), the directories and the staged files on disk, the store, the
  drivers it has created (\<open>True\<close> while open), what it has printed and how long it
  has slept. \<open>history\<close> is a record for the proofs only: each stage is written to it
  at the point of the source where the stage is complete.
\<close>

record 'ts world =
  parquet_files :: "string \<Rightarrow> 'ts trip list option"
  directories :: "string set"
  csv_files :: "string \<Rightarrow> csv option"
  db :: store
  drivers :: "bool list"
  stdout :: "printed list"
  sleeps :: "nat list"
  history :: "stage list"

text \<open>Sequencing of operations that may raise: the first exception ends the sequence.\<close>

definition sbind :: "('w \<Rightarrow> (error + 'a) \<times> 'w) \<Rightarrow> ('a \<Rightarrow> 'w \<Rightarrow> (error + 'b) \<times> 'w) \<Rightarrow> 'w \<Rightarrow> (error + 'b) \<times> 'w" where
  "sbind m f w = (case m w of (Inl e, w') \<Rightarrow> (Inl e, w') | (Inr a, w') \<Rightarrow> f a w')"

text \<open>An operation of the environment that changes nothing when it raises.\<close>

definition guard :: "(step \<Rightarrow> bool) \<Rightarrow> step \<Rightarrow> 'w \<Rightarrow> (error + unit) \<times> 'w" where
  "guard flt st w = (if flt st then (Inl (Fault st), w) else (Inr (), w))"

definition print :: "printed \<Rightarrow> 'ts world \<Rightarrow> (error + unit) \<times> 'ts world" where
  "print x w = (Inr (), w\<lparr>stdout := stdout w @ [x]\<rparr>)"

definition reach :: "stage \<Rightarrow> 'ts world \<Rightarrow> (error + unit) \<times> 'ts world" where
  "reach s w = (Inr (), w\<lparr>history := history w @ [s]\<rparr>)"

text \<open>
  \<open>with self.driver.session() as session: session.execute_write(work)\<close>, where the
  environment may fail the call (\<open>Fault st\<close>) before anything is written.
\<close>

definition session_write ::
  "(step \<Rightarrow> bool) \<Rightarrow> step \<Rightarrow> (store \<Rightarrow> error + store) \<Rightarrow> 'ts world \<Rightarrow> (error + unit) \<times> 'ts world" where
  "session_write flt st work w =
     (if flt st then (Inl (Fault st), w)
      else case execute_write work (db w) of (r, g) \<Rightarrow> (r, w\<lparr>db := g\<rparr>))"

definition sreturn :: "'a \<Rightarrow> 'w \<Rightarrow> (error + 'a) \<times> 'w" where
  "sreturn a w = (Inr a, w)"

subsection \<open>The class \<open>DataLoader\<close>\<close>

text \<open>
  \<open>GraphDatabase.driver(...)\<close>: a new driver, open. The object \<open>self\<close> is the
  position of its driver among the drivers created.
\<close>

definition driver_new :: "(step \<Rightarrow> bool) \<Rightarrow> 'ts world \<Rightarrow> (error + nat) \<times> 'ts world" where
  "driver_new flt w =
     (if flt OpenDriver then (Inl (Fault OpenDriver), w)
      else (Inr (length (drivers w)), w\<lparr>drivers := drivers w @ [True]\<rparr>))"

text \<open>Lines 24 to 37: three transactions, one after the other.\<close>

definition create_constraints :: "(step \<Rightarrow> bool) \<Rightarrow> nat \<Rightarrow> 'ts world \<Rightarrow> (error + unit) \<times> 'ts world" where
  "create_constraints flt self =
     sbind (session_write flt ConstraintPickup
              (create_constraint_if_not_exists ''PickupLocation'' ''id'')) (\<lambda>_.
     sbind (session_write flt ConstraintDropoff
              (create_constraint_if_not_exists ''DropoffLocation'' ''id'')) (\<lambda>_.
     session_write flt ConstraintTrip
              (create_constraint_if_not_exists ''Trip'' ''pickup_datetime'')))"

text \<open>Lines 10 to 16.\<close>

definition init :: "(step \<Rightarrow> bool) \<Rightarrow> 'ts world \<Rightarrow> (error + nat) \<times> 'ts world" where
  "init flt =
     sbind (driver_new flt) (\<lambda>self.
     sbind (guard flt VerifyConnectivity) (\<lambda>_.
     sbind (create_constraints flt self) (\<lambda>_.
     sbind (reach CONSTRAINTS_READY) (\<lambda>_.
     sreturn self))))"

text \<open>Lines 18 to 22.\<close>

definition close :: "(step \<Rightarrow> bool) \<Rightarrow> nat \<Rightarrow> 'ts world \<Rightarrow> (error + unit) \<times> 'ts world" where
  "close flt self w =
     (if flt CloseDriver then (Inl (Fault CloseDriver), w)
      else (Inr (), w\<lparr>drivers := (drivers w)[self := False]\<rparr>))"

text \<open>Lines 39 to 44.\<close>

definition delete_existing_data :: "(step \<Rightarrow> bool) \<Rightarrow> nat \<Rightarrow> 'ts world \<Rightarrow> (error + unit) \<times> 'ts world" where
  "delete_existing_data flt self = session_write flt Wipe detach_delete_all"

text \<open>\<open>pq.read_table(file_path).to_pandas()\<close>.\<close>

definition read_table :: "(step \<Rightarrow> bool) \<Rightarrow> string \<Rightarrow> 'ts world \<Rightarrow> (error + 'ts trip list) \<times> 'ts world" where
  "read_table flt file_path w =
     (if flt ReadTable then (Inl (Fault ReadTable), w)
      else case parquet_files w file_path of
             None \<Rightarrow> (Inl (FileNotFound file_path), w)
           | Some trips \<Rightarrow> (Inr trips, w))"

text \<open>\<open>os.makedirs(d, exist_ok=True)\<close>.\<close>

definition makedirs :: "(step \<Rightarrow> bool) \<Rightarrow> string \<Rightarrow> 'ts world \<Rightarrow> (error + unit) \<times> 'ts world" where
  "makedirs flt d w =
     (if flt MakeDirs then (Inl (Fault MakeDirs), w)
      else (Inr (), w\<lparr>directories := insert d (directories w)\<rparr>))"

text \<open>Writing a file at a path: what was there is replaced.\<close>

definition write_file :: "(step \<Rightarrow> bool) \<Rightarrow> string \<Rightarrow> csv \<Rightarrow> 'ts world \<Rightarrow> (error + unit) \<times> 'ts world" where
  "write_file flt loc f w =
     (if flt ToCsv then (Inl (Fault ToCsv), w)
      else (Inr (), w\<lparr>csv_files := (csv_files w)(loc \<mapsto> f)\<rparr>))"

text \<open>Lines 46 to 74.\<close>

definition load_transform_file ::
  "('ts, 'x) lib_scheme \<Rightarrow> (step \<Rightarrow> bool) \<Rightarrow> nat \<Rightarrow> string \<Rightarrow> 'ts world \<Rightarrow> (error + unit) \<times> 'ts world" where
  "load_transform_file L flt self file_path =
     sbind (read_table flt file_path) (\<lambda>trips0.
     sbind (guard flt SelectColumns) (\<lambda>_.
     sbind (guard flt FilterRows) (\<lambda>_.
     let trips1 = filter_rows trips0 in
     sbind (guard flt AsTypeStr) (\<lambda>_.
     let trips = map (astype_str (str_ts L)) trips1 in
     sbind (reach FILTERED) (\<lambda>_.
     sbind (makedirs flt neo4j_import_dir) (\<lambda>_.
     let csv_name = csv_filename file_path;
         save_loc = path_join neo4j_import_dir csv_name in
     sbind (write_file flt save_loc (to_csv L trips)) (\<lambda>_.
     sbind (reach STAGED) (\<lambda>_.
     sbind (print (CsvSaved save_loc)) (\<lambda>_.
     sbind (delete_existing_data flt self) (\<lambda>_.
     sbind (reach WIPE_DONE) (\<lambda>_.
     sbind (\<lambda>w. session_write flt InsertData (insert_data L (csv_files w) csv_name) w) (\<lambda>_.
     sbind (reach LOADED) (\<lambda>_.
     print DataLoaded)))))))))))))"

subsection \<open>\<open>main\<close>\<close>

definition total_attempts :: nat where
  "total_attempts = 10"

definition input_path :: string where
  "input_path =
     win_path [''D:'', ''ASU-Data Processing at Scale'', ''Project Phase-1'',
               ''yellow_tripdata_2023-03.parquet'']"

text \<open>Lines 103 to 105, the body of the \<open>try\<close>.\<close>

definition try_body :: "('ts, 'x) lib_scheme \<Rightarrow> (step \<Rightarrow> bool) \<Rightarrow> 'ts world \<Rightarrow> (error + unit) \<times> 'ts world" where
  "try_body L flt =
     sbind (init flt) (\<lambda>data_loader.
     sbind (load_transform_file L flt data_loader input_path) (\<lambda>_.
     close flt data_loader))"

text \<open>Lines 108 to 110, the handler.\<close>

definition handler :: "nat \<Rightarrow> error \<Rightarrow> 'ts world \<Rightarrow> 'ts world" where
  "handler attempt e w =
     w\<lparr>stdout := stdout w @ [AttemptError (attempt + 1) total_attempts e],
       sleeps := sleeps w @ [10]\<rparr>"

text \<open>
  Lines 101 to 110. \<open>F attempt\<close> says which operations the environment fails while
  \<open>attempt\<close> has that value.
\<close>

function main_loop ::
  "('ts, 'x) lib_scheme \<Rightarrow> (nat \<Rightarrow> step \<Rightarrow> bool) \<Rightarrow> nat \<Rightarrow> 'ts world \<Rightarrow> 'ts world" where
  "main_loop L F attempt w =
     (if attempt < total_attempts then
        (case try_body L (F attempt) w of
           (Inr u, w') \<Rightarrow> main_loop L F total_attempts w'
         | (Inl e, w') \<Rightarrow> main_loop L F (attempt + 1) (handler attempt e w'))
      else w)"
  by pat_completeness auto
termination
  by (relation "measure (\<lambda>(L, F, attempt, w). total_attempts - attempt)") auto

declare main_loop.simps [simp del]

definition main :: "('ts, 'x) lib_scheme \<Rightarrow> (nat \<Rightarrow> step \<Rightarrow> bool) \<Rightarrow> 'ts world \<Rightarrow> 'ts world" where
  "main L F w = main_loop L F 0 w"

section \<open>Notions of the specification\<close>

text \<open>
  The staged name in the words of the specification: the base name with its extension,
  the part from the last dot on, replaced.
\<close>

definition splitext_root :: "string \<Rightarrow> string" where
  "splitext_root s =
     (if CHR ''.'' \<in> set s then rev (tl (dropWhile (\<lambda>c. c \<noteq> CHR ''.'') (rev s))) else s)"

definition replace_extension :: "string \<Rightarrow> string \<Rightarrow> string" where
  "replace_extension base ext = splitext_root base @ ext"

text \<open>
  The errors of file reading, filtering, timestamp normalisation and staged-file
  writing: those raised before the staged file is complete.
\<close>

fun raised_before_staged :: "error \<Rightarrow> bool" where
  "raised_before_staged (Fault st) =
     (st = ReadTable \<or> st = SelectColumns \<or> st = FilterRows \<or> st = AsTypeStr
      \<or> st = MakeDirs \<or> st = ToCsv)"
| "raised_before_staged (FileNotFound p) = True"
| "raised_before_staged e = False"

text \<open>
  A store whose location nodes respect the two uniqueness constraints on \<open>id\<close>, and
  whose node identities are all below the next one it will give.
\<close>

definition locations_unique :: "store \<Rightarrow> bool" where
  "locations_unique g =
     (distinct (prop_values ''PickupLocation'' ''id'' (nodes g))
      \<and> distinct (prop_values ''DropoffLocation'' ''id'' (nodes g)))"

definition ids_fresh :: "store \<Rightarrow> bool" where
  "ids_fresh g = list_all (\<lambda>n. node_id n < next_id g) (nodes g)"

definition trip_nodes :: "store \<Rightarrow> node list" where
  "trip_nodes g = filter (\<lambda>n. node_label n = ''Trip'') (nodes g)"

text \<open>The three constraints of the Schema Manager.\<close>

definition schema_constraints :: "(string \<times> string) list" where
  "schema_constraints =
     [(''PickupLocation'', ''id''), (''DropoffLocation'', ''id''), (''Trip'', ''pickup_datetime'')]"

text \<open>
  The errors of the constructor (opening the driver, the connectivity check and the
  three constraint statements), and the errors of the load.
\<close>

fun raised_in_setup :: "error \<Rightarrow> bool" where
  "raised_in_setup (Fault st) =
     (st = OpenDriver \<or> st = VerifyConnectivity \<or> st = ConstraintPickup
      \<or> st = ConstraintDropoff \<or> st = ConstraintTrip)"
| "raised_in_setup (ConstraintCreationFailed l k) = True"
| "raised_in_setup e = False"

fun raised_by_load :: "error \<Rightarrow> bool" where
  "raised_by_load (Fault st) = (st = InsertData)"
| "raised_by_load (ConstraintValidationFailed l k) = True"
| "raised_by_load (MergeNullProperty l) = True"
| "raised_by_load (ExternalResourceFailed n) = True"
| "raised_by_load e = False"

section \<open>An example run\<close>

text \<open>
  Five rows: the three of the end-to-end scenario of the specification, one whose
  distance is the double \<open>0.1\<close> and one whose fare is \<open>2.5\<close>.
\<close>

definition mk_trip :: "string \<Rightarrow> string \<Rightarrow> int \<Rightarrow> int \<Rightarrow> real \<Rightarrow> real \<Rightarrow> string trip" where
  "mk_trip t1 t2 pu_id do_id d f =
     \<lparr> tpep_pickup_datetime = t1, tpep_dropoff_datetime = t2,
       PULocationID = pu_id, DOLocationID = do_id,
       trip_distance = Finite d, fare_amount = Finite f \<rparr>"

definition example_trips :: "string trip list" where
  "example_trips =
     [mk_trip ''2023-03-01 00:06:43'' ''2023-03-01 00:16:43'' 3 18 2 10,
      mk_trip ''2023-03-01 00:08:25'' ''2023-03-01 00:39:30'' 3 999 1 5,
      mk_trip ''2023-03-01 00:15:04'' ''2023-03-01 00:29:26'' 18 20 (1 / 20) 3,
      mk_trip ''2023-03-01 00:49:37'' ''2023-03-01 01:01:05'' 3 18 lit_0_1 10,
      mk_trip ''2023-03-01 00:08:04'' ''2023-03-01 00:11:06'' 3 18 2 lit_2_5]"

text \<open>
  The library functions on the values of the example: integers and floats as pandas
  writes them and as Cypher reads them back.
\<close>

definition int_table :: "(int \<times> string) list" where
  "int_table = [(3, ''3''), (18, ''18''), (20, ''20''), (999, ''999'')]"

definition float_table :: "(f64 \<times> string) list" where
  "float_table = [(Finite 2, ''2.0''), (Finite 10, ''10.0''), (Finite 1, ''1.0''),
                  (Finite 5, ''5.0''), (Finite 3, ''3.0''), (Finite (1 / 20), ''0.05''),
                  (Finite lit_0_1, ''0.1''), (Finite lit_2_5, ''2.5'')]"

definition example_lib :: "string lib" where
  "example_lib =
     \<lparr> str_ts = (\<lambda>s. s),
       fmt_int = (\<lambda>i. case map_of int_table i of Some s \<Rightarrow> s | None \<Rightarrow> []),
       fmt_float = (\<lambda>x. case map_of float_table x of Some s \<Rightarrow> s | None \<Rightarrow> []),
       toInteger = map_of (map prod.swap int_table),
       toFloat = map_of (map prod.swap float_table) \<rparr>"

text \<open>A store that holds one Trip node of an earlier load, and no constraint.\<close>

definition old_store :: store where
  "old_store =
     \<lparr> constraints = [],
       nodes = [\<lparr>node_id = 0, node_label = ''Trip'',
                 node_props = [(''pickup_datetime'', PStr ''2023-02-01 10:00:00'')]\<rparr>],
       rels = [],
       next_id = 1 \<rparr>"

text \<open>The input file is where \<open>main\<close> looks for it; nothing is staged yet.\<close>

definition example_world :: "string world" where
  "example_world =
     \<lparr> parquet_files = [input_path \<mapsto> example_trips],
       directories = {},
       csv_files = Map.empty,
       db = old_store,
       drivers = [],
       stdout = [],
       sleeps = [],
       history = [] \<rparr>"

text \<open>Environments: nothing fails, or one operation fails.\<close>

definition no_faults :: "step \<Rightarrow> bool" where
  "no_faults st = False"

definition fail_at :: "step \<Rightarrow> step \<Rightarrow> bool" where
  "fail_at s st = (st = s)"

text \<open>
  A store as the wipe leaves it, with the constraints of the Schema Manager, and two
  staged files: one with two rows that share the pickup zone, one with two rows that
  share the pickup time.
\<close>

definition wiped_store :: store where
  "wiped_store = \<lparr> constraints = schema_constraints, nodes = [], rels = [], next_id = 1 \<rparr>"

definition staged_example :: csv where
  "staged_example =
     \<lparr> csv_header = columns,
       csv_rows = [[''2023-03-01 00:06:43'', ''2023-03-01 00:16:43'', ''3'', ''18'', ''2.0'', ''10.0''],
                   [''2023-03-01 00:49:37'', ''2023-03-01 01:01:05'', ''3'', ''20'', ''1.0'', ''5.0'']] \<rparr>"

definition staged_duplicate :: csv where
  "staged_duplicate =
     \<lparr> csv_header = columns,
       csv_rows = [[''2023-03-01 00:06:43'', ''2023-03-01 00:16:43'', ''3'', ''18'', ''2.0'', ''10.0''],
                   [''2023-03-01 00:06:43'', ''2023-03-01 01:01:05'', ''18'', ''20'', ''1.0'', ''5.0'']] \<rparr>"

definition example_fs :: "string \<Rightarrow> csv option" where
  "example_fs =
     [path_join neo4j_import_dir ''trips.csv'' \<mapsto> staged_example,
      path_join neo4j_import_dir ''twice.csv'' \<mapsto> staged_duplicate]"

section \<open>The Filter Engine\<close>

lemma getitem_mask_map: "getitem_mask df (map p df) = filter p df"
  by (induction df) (simp_all add: getitem_mask_def)

lemma mask_and_map: "mask_and (map p xs) (map q xs) = map (\<lambda>x. p x \<and> q x) xs"
  by (induction xs) (simp_all add: mask_and_def)

lemma filter_rows_eq:
  "filter_rows trips =
     filter (\<lambda>r. PULocationID r \<in> set bronx \<and> DOLocationID r \<in> set bronx \<and>
                 f64_gt (trip_distance r) lit_0_1 \<and> f64_gt (fare_amount r) lit_2_5) trips"
proof -
  have m1: "mask_and (isin (map PULocationID trips) bronx) (isin (map DOLocationID trips) bronx)
            = map (\<lambda>r. PULocationID r \<in> set bronx \<and> DOLocationID r \<in> set bronx) trips"
    by (simp add: isin_def mask_and_map[symmetric] comp_def)
  have m2: "gt_scalar (map f xs) c = map (\<lambda>r. f64_gt (f r) c) xs"
    for f :: "'b trip \<Rightarrow> f64" and xs c
    by (simp add: gt_scalar_def comp_def)
  show ?thesis
    unfolding filter_rows_def Let_def m1 m2 getitem_mask_map
    by (simp add: conj_commute conj_left_commute cong: conj_cong)
qed

text \<open>
  C1. The output of the Filter Engine is the input rows, in their order, whose pickup
  zone and dropoff zone are both in the allow-set, whose distance is greater than 0.1
  and whose fare is greater than 2.5 (with their timestamps as strings). No row of the
  output has the distance 0.1 or the fare 2.5, neither as the double of the literal nor
  as the decimal number: the comparisons are strict.
\<close>

theorem filter_engine_selects:
  "filter_engine str trips =
     map (astype_str str)
       (filter (\<lambda>r. PULocationID r \<in> set bronx \<and> DOLocationID r \<in> set bronx \<and>
                     f64_gt (trip_distance r) lit_0_1 \<and> f64_gt (fare_amount r) lit_2_5) trips)
   \<and> (\<forall>r \<in> set (filter_engine str trips).
         trip_distance r \<noteq> Finite lit_0_1 \<and> fare_amount r \<noteq> Finite lit_2_5
         \<and> (\<forall>x. trip_distance r = Finite x \<longrightarrow> 1 / 10 < x)
         \<and> (\<forall>y. fare_amount r = Finite y \<longrightarrow> 5 / 2 < y))"
proof -
  have "1 / 10 < lit_0_1" by (simp add: lit_0_1_def)
  then show ?thesis
    unfolding filter_engine_def filter_rows_eq
    by (auto simp: astype_str_def lit_2_5_def)
qed

theorem filter_engine_selects_witness:
  "filter_engine (\<lambda>s. s) example_trips = [example_trips ! 0]
   \<and> example_trips ! 0 \<in> set (filter_engine (\<lambda>s. s) example_trips)
   \<and> trip_distance (example_trips ! 0) = Finite 2 \<and> (1 / 10 < (2::real))
   \<and> fare_amount (example_trips ! 0) = Finite 10 \<and> (5 / 2 < (10::real))"
  using filter_engine_selects [of "\<lambda>s. s" example_trips]
  by (simp add: example_trips_def mk_trip_def bronx_def astype_str_def lit_0_1_def lit_2_5_def)

text \<open>
  C3, as the specification states it: a row is absent from the output if and only if
  its pickup zone or its dropoff zone is outside the allow-set. The third row of the
  example has both zones in the allow-set and the distance 0.05: it is absent.
\<close>

theorem zone_biconditional_counterexample:
  "example_trips ! 2 \<in> set example_trips
   \<and> \<not> (astype_str (\<lambda>s. s) (example_trips ! 2) \<notin> set (filter_engine (\<lambda>s. s) example_trips)
          \<longleftrightarrow> PULocationID (example_trips ! 2) \<notin> set bronx
               \<or> DOLocationID (example_trips ! 2) \<notin> set bronx)"
  by (simp add: filter_engine_def filter_rows_eq example_trips_def mk_trip_def bronx_def
        astype_str_def lit_0_1_def lit_2_5_def)

text \<open>
  C3, amended. An input row is absent from the output if and only if its pickup zone is
  outside the allow-set, or its dropoff zone is, or its distance is not greater than
  0.1, or its fare is not greater than 2.5.
\<close>

theorem absent_iff_some_condition_fails:
  assumes "r \<in> set trips"
  shows "astype_str str r \<notin> set (filter_engine str trips)
         \<longleftrightarrow> PULocationID r \<notin> set bronx \<or> DOLocationID r \<notin> set bronx
              \<or> \<not> f64_gt (trip_distance r) lit_0_1 \<or> \<not> f64_gt (fare_amount r) lit_2_5"
proof -
  let ?keep = "\<lambda>r :: 'a trip. PULocationID r \<in> set bronx \<and> DOLocationID r \<in> set bronx \<and>
                 f64_gt (trip_distance r) lit_0_1 \<and> f64_gt (fare_amount r) lit_2_5"
  have same: "?keep x = ?keep r" if "astype_str str x = astype_str str r" for x
  proof -
    from that have "PULocationID x = PULocationID r" "DOLocationID x = DOLocationID r"
      "trip_distance x = trip_distance r" "fare_amount x = fare_amount r"
      by (simp_all add: astype_str_def)
    then show ?thesis by simp
  qed
  have "astype_str str r \<in> set (filter_engine str trips) \<longleftrightarrow> ?keep r"
  proof
    assume "astype_str str r \<in> set (filter_engine str trips)"
    then obtain x where "x \<in> set trips" "?keep x" "astype_str str x = astype_str str r"
      unfolding filter_engine_def filter_rows_eq by auto
    with same show "?keep r" by blast
  next
    assume "?keep r"
    with assms show "astype_str str r \<in> set (filter_engine str trips)"
      unfolding filter_engine_def filter_rows_eq by auto
  qed
  then show ?thesis by blast
qed

theorem absent_iff_some_condition_fails_witness:
  "example_trips ! 2 \<in> set example_trips
   \<and> astype_str (\<lambda>s. s) (example_trips ! 2) \<notin> set (filter_engine (\<lambda>s. s) example_trips)
   \<and> \<not> f64_gt (trip_distance (example_trips ! 2)) lit_0_1"
proof -
  have h: "example_trips ! 2 \<in> set example_trips" by (simp add: example_trips_def)
  have d: "\<not> f64_gt (trip_distance (example_trips ! 2)) lit_0_1"
    by (simp add: example_trips_def mk_trip_def lit_0_1_def)
  from absent_iff_some_condition_fails [OF h, of "\<lambda>s. s"] d h show ?thesis by blast
qed

section \<open>The Staging Writer\<close>

lemmas pipeline_defs = try_body_def init_def load_transform_file_def close_def
  create_constraints_def delete_existing_data_def driver_new_def read_table_def
  makedirs_def write_file_def session_write_def execute_write_def
  sbind_def sreturn_def guard_def reach_def print_def Let_def

lemma staged_file_written:
  assumes "parquet_files w p = Some trips0"
    and "\<not> flt ReadTable" "\<not> flt SelectColumns" "\<not> flt FilterRows" "\<not> flt AsTypeStr"
    and "\<not> flt MakeDirs" "\<not> flt ToCsv"
  shows "csv_files (snd (load_transform_file L flt self p w))
           (path_join neo4j_import_dir (csv_filename p))
         = Some (to_csv L (filter_engine (str_ts L) trips0))"
    and "neo4j_import_dir \<in> directories (snd (load_transform_file L flt self p w))"
  using assms unfolding pipeline_defs filter_engine_def
  by (auto split: if_splits sum.splits option.splits prod.splits)


lemma prefix_parquet_border:
  assumes "prefix ''.parquet'' (a @ ''.parquet'' @ b)" and "a \<noteq> []"
  shows "prefix ''.parquet'' a"
proof -
  define old where "old = ''.parquet''"
  from assms(1) have "prefix old a \<or> (\<exists>us. old = a @ us \<and> prefix us (old @ b))"
    unfolding old_def[symmetric] prefix_append by simp
  then consider "prefix old a" | us where "old = a @ us" "prefix us (old @ b)"
    by blast
  then have "prefix old a"
  proof cases
    case 1
    then show ?thesis .
  next
    case 2
    show ?thesis
    proof (cases us)
      case Nil
      with 2(1) show ?thesis by simp
    next
      case (Cons u us')
      with 2(2) have u: "u = CHR ''.''" by (simp add: old_def)
      from assms(2) obtain c a' where a: "a = c # a'" by (cases a) auto
      define rest where "rest = ''parquet''"
      from 2(1) a Cons have "a' @ u # us' = rest" by (simp add: old_def rest_def)
      then have "set rest = set (a' @ u # us')" by (rule arg_cong[OF sym])
      then have "u \<in> set rest" by simp
      with u show ?thesis by (simp add: rest_def)
    qed
  qed
  then show ?thesis by (simp only: old_def)
qed


lemma replace_str_append_gen:
  assumes ne: "old \<noteq> []"
    and border: "\<And>a b. a \<noteq> [] \<Longrightarrow> prefix old (a @ old @ b) \<Longrightarrow> prefix old a"
  shows "replace_str (a @ old @ b) old new
           = replace_str a old new @ new @ replace_str b old new"
  using ne border
proof (induction a old new rule: replace_str.induct)
  case (1 old new)
  then obtain c cs where o: "old = c # cs" by (cases old) auto
  have "replace_str (old @ b) old new = new @ replace_str (drop (length old) (old @ b)) old new"
    unfolding o by simp
  with 1(1) show ?case by simp
next
  case (2 c cs old new)
  note ne = \<open>old \<noteq> []\<close>
  show ?case
  proof (cases "prefix old (c # cs)")
    case True
    then obtain r where r: "c # cs = old @ r" by (auto simp: prefix_def)
    have p2: "prefix old (c # (cs @ old @ b))" using True by (metis append_Cons prefix_prefix)
    have d: "drop (length old) (c # cs) = r" using r by simp
    have d2: "drop (length old) (c # (cs @ old @ b)) = r @ old @ b"
      using r by (metis append_Cons append_assoc append_eq_conv_conj)
    have ih: "replace_str (r @ old @ b) old new
       = replace_str r old new @ new @ replace_str b old new"
      using 2(2)[OF ne True ne 2(5)] d by simp
    have "replace_str ((c # cs) @ old @ b) old new = new @ replace_str (r @ old @ b) old new"
      using ne p2 d2 by simp
    moreover have "replace_str (c # cs) old new = new @ replace_str r old new"
      using ne True d by simp
    ultimately show ?thesis using ih by simp
  next
    case False
    have nb: "\<not> prefix old (c # (cs @ old @ b))"
      using 2(5)[of "c # cs" b] False by auto
    have ih: "replace_str (cs @ old @ b) old new
       = replace_str cs old new @ new @ replace_str b old new"
      using 2(3)[OF ne False ne 2(5)] by simp
    have "replace_str ((c # cs) @ old @ b) old new = c # replace_str (cs @ old @ b) old new"
      using ne nb by simp
    moreover have "replace_str (c # cs) old new = c # replace_str cs old new"
      using ne False by simp
    ultimately show ?thesis using ih by simp
  qed
qed


lemma replace_parquet_append:
  "replace_str (a @ ''.parquet'' @ b) ''.parquet'' ''.csv''
     = replace_str a ''.parquet'' ''.csv'' @ ''.csv'' @ replace_str b ''.parquet'' ''.csv''"
  by (rule replace_str_append_gen) (simp, erule (1) prefix_parquet_border[rotated])

lemma replace_no_occurrence:
  "old \<noteq> [] \<Longrightarrow> \<not> sublist old s \<Longrightarrow> replace_str s old new = s"
proof (induction s)
  case Nil
  then show ?case by simp
next
  case (Cons c cs)
  from Cons.prems have np: "\<not> prefix old (c # cs)" using prefix_imp_sublist by blast
  from Cons.prems have "\<not> sublist old cs" by (simp add: sublist_Cons_right)
  with Cons have "replace_str cs old new = cs" by simp
  with np Cons.prems show ?case by simp
qed





text \<open>
  C8, as the specification states it: the staged name is the base name with its
  extension replaced. For \<open>trips.pq\<close> the source keeps the name, and for
  \<open>a.parquet.b.parquet\<close> it also replaces inside the stem.
\<close>

theorem extension_replacement_counterexample:
  "csv_filename ''D:/in/trips.pq'' = ''trips.pq''
   \<and> replace_extension (basename ''D:/in/trips.pq'') ''.csv'' = ''trips.csv''
   \<and> csv_filename ''D:/in/trips.pq'' \<noteq> replace_extension (basename ''D:/in/trips.pq'') ''.csv''
   \<and> csv_filename ''D:/in/a.parquet.b.parquet'' = ''a.csv.b.csv''
   \<and> replace_extension (basename ''D:/in/a.parquet.b.parquet'') ''.csv'' = ''a.parquet.b.csv''"
  by (simp add: csv_filename_def replace_extension_def splitext_root_def basename_def
        splitdrive_rest_def is_sep_def bslash_def)

text \<open>
  C8, amended. When reading, filtering and writing do not fail, the import directory
  exists afterwards, and the file at the import directory and the base name with every
  \<open>.parquet\<close> replaced by \<open>.csv\<close> is the header line of the six columns and one
  line for each filtered row, whatever was there before. For a base name that ends in
  \<open>.parquet\<close> and has no other occurrence of it, that name is the base name with its
  extension replaced by \<open>.csv\<close>.
\<close>

theorem staging_writer_effect:
  assumes "parquet_files w p = Some trips0"
    and "\<not> flt ReadTable" "\<not> flt SelectColumns" "\<not> flt FilterRows" "\<not> flt AsTypeStr"
    and "\<not> flt MakeDirs" "\<not> flt ToCsv"
  shows "neo4j_import_dir \<in> directories (snd (load_transform_file L flt self p w))
     \<and> csv_files (snd (load_transform_file L flt self p w))
          (path_join neo4j_import_dir (replace_str (basename p) ''.parquet'' ''.csv''))
        = Some (to_csv L (filter_engine (str_ts L) trips0))
     \<and> csv_header (to_csv L (filter_engine (str_ts L) trips0)) = columns
     \<and> length (csv_rows (to_csv L (filter_engine (str_ts L) trips0)))
        = length (filter_engine (str_ts L) trips0)
     \<and> (\<forall>stem. basename p = stem @ ''.parquet'' \<and> \<not> sublist ''.parquet'' stem \<longrightarrow>
           replace_str (basename p) ''.parquet'' ''.csv'' = stem @ ''.csv'')"
proof -
  have nm: "replace_str (basename p) ''.parquet'' ''.csv'' = stem @ ''.csv''"
    if "basename p = stem @ ''.parquet''" "\<not> sublist ''.parquet'' stem" for stem
  proof -
    have "replace_str stem ''.parquet'' ''.csv'' = stem"
      using that(2) by (intro replace_no_occurrence) simp_all
    moreover have "replace_str (stem @ ''.parquet'' @ []) ''.parquet'' ''.csv''
        = replace_str stem ''.parquet'' ''.csv'' @ ''.csv'' @ replace_str [] ''.parquet'' ''.csv''"
      by (rule replace_parquet_append)
    ultimately show ?thesis using that(1) by simp
  qed
  from staged_file_written[OF assms, of L self] nm show ?thesis
    by (simp add: csv_filename_def to_csv_def)
qed

theorem staging_writer_effect_witness:
  "csv_files
     (snd (load_transform_file example_lib no_faults 0 input_path
        (example_world\<lparr>csv_files :=
            [path_join neo4j_import_dir ''yellow_tripdata_2023-03.csv''
               \<mapsto> \<lparr>csv_header = [], csv_rows = []\<rparr>]\<rparr>)))
     (path_join neo4j_import_dir ''yellow_tripdata_2023-03.csv'')
   = Some \<lparr>csv_header = columns,
           csv_rows = [[''2023-03-01 00:06:43'', ''2023-03-01 00:16:43'', ''3'', ''18'',
                        ''2.0'', ''10.0'']]\<rparr>
   \<and> neo4j_import_dir \<in> directories
        (snd (load_transform_file example_lib no_faults 0 input_path
           (example_world\<lparr>csv_files :=
              [path_join neo4j_import_dir ''yellow_tripdata_2023-03.csv''
                 \<mapsto> \<lparr>csv_header = [], csv_rows = []\<rparr>]\<rparr>)))
   \<and> neo4j_import_dir \<notin> directories example_world
   \<and> basename input_path = ''yellow_tripdata_2023-03'' @ ''.parquet''
   \<and> \<not> sublist ''.parquet'' ''yellow_tripdata_2023-03''"
proof -
  let ?w = "example_world\<lparr>csv_files :=
            [path_join neo4j_import_dir ''yellow_tripdata_2023-03.csv''
               \<mapsto> \<lparr>csv_header = [], csv_rows = []\<rparr>]\<rparr>"
  have pf: "parquet_files ?w input_path = Some example_trips"
    by (simp add: example_world_def)
  have nf: "\<not> no_faults ReadTable" "\<not> no_faults SelectColumns" "\<not> no_faults FilterRows"
    "\<not> no_faults AsTypeStr" "\<not> no_faults MakeDirs" "\<not> no_faults ToCsv"
    by (simp_all add: no_faults_def)
  have b: "basename input_path = ''yellow_tripdata_2023-03'' @ ''.parquet''"
    by (simp add: input_path_def basename_def splitdrive_rest_def is_sep_def bslash_def)
  have ns: "\<not> sublist ''.parquet'' ''yellow_tripdata_2023-03''"
    by (simp add: sublist_Cons_right)
  have fe: "filter_engine (\<lambda>s. s) example_trips = [example_trips ! 0]"
    by (simp add: filter_engine_def filter_rows_eq example_trips_def mk_trip_def bronx_def
          astype_str_def lit_0_1_def lit_2_5_def)
  have st: "str_ts example_lib = (\<lambda>s. s)" by (simp add: example_lib_def)
  have csv: "to_csv example_lib [example_trips ! 0]
     = \<lparr>csv_header = columns,
           csv_rows = [[''2023-03-01 00:06:43'', ''2023-03-01 00:16:43'', ''3'', ''18'',
                        ''2.0'', ''10.0'']]\<rparr>"
    by (simp add: to_csv_def example_trips_def mk_trip_def example_lib_def int_table_def
          float_table_def)
  have d: "neo4j_import_dir \<notin> directories example_world" by (simp add: example_world_def)
  note t = staging_writer_effect[OF pf nf, of example_lib 0]
  from t b ns have nm: "replace_str (basename input_path) ''.parquet'' ''.csv''
      = ''yellow_tripdata_2023-03'' @ ''.csv''" by blast
  from t nm fe st csv b ns d show ?thesis by simp
qed

section \<open>The order of the stages\<close>

text \<open>
  C2, as the specification states it: the wipe comes before the Filter Engine and the
  Staging Writer. In the example run it comes after them; and when the staged file
  cannot be written, the filter has run and the old graph data is all there.
\<close>

theorem wipe_first_counterexample:
  "fst (try_body example_lib no_faults example_world) = Inr ()
   \<and> history (snd (try_body example_lib no_faults example_world))
       = [CONSTRAINTS_READY, FILTERED, STAGED, WIPE_DONE, LOADED]
   \<and> history (snd (try_body example_lib no_faults example_world))
       \<noteq> [CONSTRAINTS_READY, WIPE_DONE, FILTERED, STAGED, LOADED]
   \<and> fst (try_body example_lib (fail_at ToCsv) example_world) = Inl (Fault ToCsv)
   \<and> history (snd (try_body example_lib (fail_at ToCsv) example_world))
       = [CONSTRAINTS_READY, FILTERED]
   \<and> nodes (db (snd (try_body example_lib (fail_at ToCsv) example_world))) = nodes old_store
   \<and> nodes old_store \<noteq> []"
  by code_simp


text \<open>The store and the load query raise no exception of the environment or the reader.\<close>

lemma create_node_no_fault:
  "create_node l ps g \<noteq> Inl (Fault st)" "create_node l ps g \<noteq> Inl (FileNotFound q)"
  by (auto simp: create_node_def split: option.splits)

lemma merge_node_no_fault:
  "merge_node l v g \<noteq> Inl (Fault st)" "merge_node l v g \<noteq> Inl (FileNotFound q)"
  by (auto simp: merge_node_def create_node_no_fault split: if_splits sum.splits prod.splits)

lemma create_trips_no_fault:
  "create_trips ps pds g \<noteq> Inl (Fault st)" "create_trips ps pds g \<noteq> Inl (FileNotFound q)"
  by (induction ps pds g rule: create_trips.induct)
     (auto simp: create_node_no_fault split: sum.splits prod.splits)

lemma load_row_no_fault:
  "load_row L row g \<noteq> Inl (Fault st)" "load_row L row g \<noteq> Inl (FileNotFound q)"
  unfolding load_row_def
  by (auto simp: merge_node_no_fault create_trips_no_fault
           split: option.splits sum.splits prod.splits)

lemma load_rows_no_fault:
  "load_rows L rows g \<noteq> Inl (Fault st)" "load_rows L rows g \<noteq> Inl (FileNotFound q)"
  by (induction rows arbitrary: g) (auto simp: load_row_no_fault split: sum.splits)

lemma insert_data_no_fault:
  "insert_data L fs n g \<noteq> Inl (Fault st)" "insert_data L fs n g \<noteq> Inl (FileNotFound q)"
  by (auto simp: insert_data_def load_rows_no_fault split: option.splits)

lemma load_transform_file_early_failure:
  "fst (load_transform_file L flt self p w) = Inl e \<Longrightarrow> raised_before_staged e \<Longrightarrow>
      db (snd (load_transform_file L flt self p w)) = db w"
  apply (erule raised_before_staged.elims(2))
  unfolding pipeline_defs detach_delete_all_def
  by (auto simp: insert_data_no_fault
           split: if_splits sum.splits option.splits prod.splits)

lemma init_keeps_graph:
  "nodes (db (snd (init flt w))) = nodes (db w) \<and> rels (db (snd (init flt w))) = rels (db w)"
  unfolding init_def create_constraints_def driver_new_def session_write_def execute_write_def
    sbind_def sreturn_def guard_def reach_def create_constraint_if_not_exists_def
  by (auto split: if_splits sum.splits prod.splits)

lemma init_error_not_before_staged:
  "fst (init flt w) = Inl e \<Longrightarrow> \<not> raised_before_staged e"
  unfolding init_def create_constraints_def driver_new_def session_write_def execute_write_def
    sbind_def sreturn_def guard_def reach_def create_constraint_if_not_exists_def
  by (auto split: if_splits sum.splits prod.splits)

lemma close_keeps_db:
  "db (snd (close flt self w)) = db w"
  "fst (close flt self w) = Inl e \<Longrightarrow> \<not> raised_before_staged e"
  by (auto simp: close_def split: if_splits)

lemma try_body_early_failure:
  assumes "fst (try_body L flt w) = Inl e" and "raised_before_staged e"
  shows "nodes (db (snd (try_body L flt w))) = nodes (db w)
        \<and> rels (db (snd (try_body L flt w))) = rels (db w)"
proof (cases "init flt w")
  case (Pair r1 w1)
  note i = init_keeps_graph[of flt w] init_error_not_before_staged[of flt w]
  show ?thesis
  proof (cases r1)
    case (Inl e1)
    with Pair assms i show ?thesis by (simp add: try_body_def sbind_def)
  next
    case (Inr self)
    show ?thesis
    proof (cases "load_transform_file L flt self input_path w1")
      case (Pair r2 w2)
      note p2 = this
      show ?thesis
      proof (cases r2)
        case (Inl e2)
        with \<open>init flt w = (r1, w1)\<close> Inr p2 assms
        have "e2 = e" by (simp add: try_body_def sbind_def)
        with load_transform_file_early_failure[of L flt self input_path w1 e] p2 Inl assms(2)
        have "db w2 = db w1" by simp
        with \<open>init flt w = (r1, w1)\<close> Inr p2 Inl i show ?thesis
          by (simp add: try_body_def sbind_def)
      next
        case (Inr u)
        with \<open>init flt w = (r1, w1)\<close> \<open>r1 = Inr self\<close> p2 assms
          close_keeps_db(2)[of flt self w2 e]
        show ?thesis by (simp add: try_body_def sbind_def)
      qed
    qed
  qed
qed

text \<open>
  C9. When \<open>load_transform_file\<close> raises in file reading, filtering, timestamp
  normalisation or staged-file writing, the store is as it was; the attempt as a whole
  then leaves the nodes and relationships as they were. The wipe is issued only after
  staging: whenever \<open>load_transform_file\<close> has changed the nodes or the
  relationships, the staged file is written in full.
\<close>

theorem failure_before_staging_keeps_graph:
  "(fst (load_transform_file L flt self p w) = Inl e \<and> raised_before_staged e \<longrightarrow>
      db (snd (load_transform_file L flt self p w)) = db w)
   \<and> (fst (try_body L flt w) = Inl e \<and> raised_before_staged e \<longrightarrow>
        nodes (db (snd (try_body L flt w))) = nodes (db w)
        \<and> rels (db (snd (try_body L flt w))) = rels (db w))
   \<and> (nodes (db (snd (load_transform_file L flt self p w))) \<noteq> nodes (db w)
        \<or> rels (db (snd (load_transform_file L flt self p w))) \<noteq> rels (db w) \<longrightarrow>
        (\<exists>trips0. parquet_files w p = Some trips0
           \<and> csv_files (snd (load_transform_file L flt self p w))
                (path_join neo4j_import_dir (csv_filename p))
              = Some (to_csv L (filter_engine (str_ts L) trips0))))"
proof (intro conjI)
  show "fst (load_transform_file L flt self p w) = Inl e \<and> raised_before_staged e \<longrightarrow>
      db (snd (load_transform_file L flt self p w)) = db w"
    using load_transform_file_early_failure by blast
  show "fst (try_body L flt w) = Inl e \<and> raised_before_staged e \<longrightarrow>
        nodes (db (snd (try_body L flt w))) = nodes (db w)
        \<and> rels (db (snd (try_body L flt w))) = rels (db w)"
    using try_body_early_failure by blast
  show "nodes (db (snd (load_transform_file L flt self p w))) \<noteq> nodes (db w)
        \<or> rels (db (snd (load_transform_file L flt self p w))) \<noteq> rels (db w) \<longrightarrow>
        (\<exists>trips0. parquet_files w p = Some trips0
           \<and> csv_files (snd (load_transform_file L flt self p w))
                (path_join neo4j_import_dir (csv_filename p))
              = Some (to_csv L (filter_engine (str_ts L) trips0)))"
    unfolding pipeline_defs filter_engine_def
    by (auto split: if_splits sum.splits option.splits prod.splits)
qed

theorem failure_before_staging_keeps_graph_witness:
  "fst (try_body example_lib (fail_at ToCsv) example_world) = Inl (Fault ToCsv)
   \<and> raised_before_staged (Fault ToCsv)
   \<and> nodes (db (snd (try_body example_lib (fail_at ToCsv) example_world))) = nodes old_store
   \<and> rels (db (snd (try_body example_lib (fail_at ToCsv) example_world))) = rels old_store
   \<and> nodes old_store \<noteq> []
   \<and> nodes (db (snd (load_transform_file example_lib no_faults 0 input_path example_world)))
       \<noteq> nodes (db example_world)
   \<and> csv_files (snd (load_transform_file example_lib no_faults 0 input_path example_world))
        (path_join neo4j_import_dir (csv_filename input_path))
      = Some (to_csv example_lib (filter_engine (\<lambda>s. s) example_trips))"
proof -
  have f: "fst (try_body example_lib (fail_at ToCsv) example_world) = Inl (Fault ToCsv)"
    by code_simp
  have r: "raised_before_staged (Fault ToCsv)" by simp
  have d: "db example_world = old_store" "nodes old_store \<noteq> []"
    by (simp_all add: example_world_def old_store_def)
  have ch: "nodes (db (snd (load_transform_file example_lib no_faults 0 input_path example_world)))
       \<noteq> nodes (db example_world)"
    by code_simp
  have pf: "parquet_files example_world input_path = Some example_trips"
    by (simp add: example_world_def)
  have st: "str_ts example_lib = (\<lambda>s. s)" by (simp add: example_lib_def)
  note t = failure_before_staging_keeps_graph
             [of example_lib "fail_at ToCsv" 0 input_path example_world "Fault ToCsv"]
  note u = failure_before_staging_keeps_graph
             [of example_lib no_faults 0 input_path example_world "Fault ToCsv"]
  from t f r d have g: "nodes (db (snd (try_body example_lib (fail_at ToCsv) example_world))) = nodes old_store
   \<and> rels (db (snd (try_body example_lib (fail_at ToCsv) example_world))) = rels old_store"
    by simp
  from u ch pf st have s: "csv_files (snd (load_transform_file example_lib no_faults 0 input_path example_world))
        (path_join neo4j_import_dir (csv_filename input_path))
      = Some (to_csv example_lib (filter_engine (\<lambda>s. s) example_trips))"
    by auto
  from f r g d ch s show ?thesis by blast
qed

section \<open>The retry loop of \<open>main\<close>\<close>













text \<open>
  C7 asks that the connection is released at the end of every run, also after a
  failure. The source closes the driver only on the line after
  \<open>load_transform_file\<close>: when the reader raises in the first attempt and the second
  attempt succeeds, the driver of the first attempt is open at the end of the run and
  only the second is closed; when the reader raises in every attempt, ten drivers are
  open at the end.
\<close>

theorem failed_attempt_leaves_driver_open:
  "drivers example_world = []
   \<and> drivers (main example_lib (\<lambda>n st. n = 0 \<and> st = ReadTable) example_world) = [True, False]
   \<and> drivers (main example_lib (\<lambda>n. fail_at ReadTable) example_world) = replicate 10 True"
  by code_simp

section \<open>The Schema Manager\<close>

lemmas constraint_defs = create_constraints_def session_write_def execute_write_def sbind_def
  create_constraint_if_not_exists_def schema_constraints_def

lemma create_constraints_present:
  assumes "set schema_constraints \<subseteq> set (constraints (db w))"
  shows "snd (create_constraints flt self w) = w"
    and "fst (create_constraints flt self w) = Inr ()
         \<or> (\<exists>st. flt st \<and> fst (create_constraints flt self w) = Inl (Fault st))"
    and "\<not> flt ConstraintPickup \<and> \<not> flt ConstraintDropoff \<and> \<not> flt ConstraintTrip \<longrightarrow>
         create_constraints flt self w = (Inr (), w)"
  using assms unfolding constraint_defs
  by (auto split: if_splits sum.splits prod.splits)

lemma create_constraints_first:
  assumes "fst (create_constraints flt self w) = Inr ()"
  shows "set schema_constraints \<subseteq> set (constraints (db (snd (create_constraints flt self w))))"
    and "constraints (db (snd (create_constraints flt self w)))
         = constraints (db w) @ filter (\<lambda>c. c \<notin> set (constraints (db w))) schema_constraints"
    and "nodes (db (snd (create_constraints flt self w))) = nodes (db w)"
    and "rels (db (snd (create_constraints flt self w))) = rels (db w)"
  using assms unfolding constraint_defs
  by (auto split: if_splits sum.splits prod.splits)

text \<open>
  C6. On a store that has the three uniqueness constraints, \<open>create_constraints\<close>
  changes nothing, and the only exception it can raise is one of the environment (the
  store cannot be reached); when the three calls reach the store it returns normally.
  A run of \<open>create_constraints\<close> that returns adds exactly the constraints that were
  absent, in the order of the source, and leaves nodes and relationships alone; a
  second run after it changes nothing and raises nothing.
\<close>

theorem create_constraints_idempotent:
  "(set schema_constraints \<subseteq> set (constraints (db w)) \<longrightarrow>
      snd (create_constraints flt self w) = w
      \<and> (fst (create_constraints flt self w) = Inr ()
          \<or> (\<exists>st. flt st \<and> fst (create_constraints flt self w) = Inl (Fault st)))
      \<and> (\<not> flt ConstraintPickup \<and> \<not> flt ConstraintDropoff \<and> \<not> flt ConstraintTrip \<longrightarrow>
            create_constraints flt self w = (Inr (), w)))
   \<and> (fst (create_constraints flt self w) = Inr () \<longrightarrow>
        set schema_constraints \<subseteq> set (constraints (db (snd (create_constraints flt self w))))
        \<and> constraints (db (snd (create_constraints flt self w)))
           = constraints (db w) @ filter (\<lambda>c. c \<notin> set (constraints (db w))) schema_constraints
        \<and> nodes (db (snd (create_constraints flt self w))) = nodes (db w)
        \<and> rels (db (snd (create_constraints flt self w))) = rels (db w)
        \<and> (\<forall>flt' self'.
              \<not> flt' ConstraintPickup \<and> \<not> flt' ConstraintDropoff \<and> \<not> flt' ConstraintTrip \<longrightarrow>
              create_constraints flt' self' (snd (create_constraints flt self w))
              = (Inr (), snd (create_constraints flt self w))))"
proof (intro conjI impI allI)
  assume p: "set schema_constraints \<subseteq> set (constraints (db w))"
  from create_constraints_present[OF p]
  show "snd (create_constraints flt self w) = w"
    and "fst (create_constraints flt self w) = Inr ()
          \<or> (\<exists>st. flt st \<and> fst (create_constraints flt self w) = Inl (Fault st))"
    by blast+
  assume "\<not> flt ConstraintPickup \<and> \<not> flt ConstraintDropoff \<and> \<not> flt ConstraintTrip"
  with create_constraints_present(3)[OF p]
  show "create_constraints flt self w = (Inr (), w)" by blast
next
  assume ok: "fst (create_constraints flt self w) = Inr ()"
  from create_constraints_first[OF ok]
  show "set schema_constraints \<subseteq> set (constraints (db (snd (create_constraints flt self w))))"
    and "constraints (db (snd (create_constraints flt self w)))
           = constraints (db w) @ filter (\<lambda>c. c \<notin> set (constraints (db w))) schema_constraints"
    and "nodes (db (snd (create_constraints flt self w))) = nodes (db w)"
    and "rels (db (snd (create_constraints flt self w))) = rels (db w)"
    by blast+
  fix flt' self'
  assume "\<not> flt' ConstraintPickup \<and> \<not> flt' ConstraintDropoff \<and> \<not> flt' ConstraintTrip"
  with create_constraints_present(3)[OF create_constraints_first(1)[OF ok]]
  show "create_constraints flt' self' (snd (create_constraints flt self w))
              = (Inr (), snd (create_constraints flt self w))" by blast
qed

theorem create_constraints_idempotent_witness:
  "fst (create_constraints no_faults 0 example_world) = Inr ()
   \<and> constraints (db example_world) = []
   \<and> constraints (db (snd (create_constraints no_faults 0 example_world))) = schema_constraints
   \<and> create_constraints no_faults 0 (snd (create_constraints no_faults 0 example_world))
      = (Inr (), snd (create_constraints no_faults 0 example_world))
   \<and> set schema_constraints
        \<subseteq> set (constraints (db (snd (create_constraints no_faults 0 example_world))))
   \<and> snd (create_constraints no_faults 0 (snd (create_constraints no_faults 0 example_world)))
       = snd (create_constraints no_faults 0 example_world)"
proof -
  have ok: "fst (create_constraints no_faults 0 example_world) = Inr ()" by code_simp
  have c0: "constraints (db example_world) = []" by (simp add: example_world_def old_store_def)
  have nf: "\<not> no_faults ConstraintPickup \<and> \<not> no_faults ConstraintDropoff
            \<and> \<not> no_faults ConstraintTrip" by (simp add: no_faults_def)
  note t = create_constraints_idempotent[of example_world no_faults 0, THEN conjunct2, THEN mp, OF ok]
  from t c0 have a: "constraints (db (snd (create_constraints no_faults 0 example_world)))
                     = schema_constraints" by simp
  from t nf have b: "create_constraints no_faults 0 (snd (create_constraints no_faults 0 example_world))
      = (Inr (), snd (create_constraints no_faults 0 example_world))" by blast
  from t have p: "set schema_constraints
        \<subseteq> set (constraints (db (snd (create_constraints no_faults 0 example_world))))"
    by blast
  from create_constraints_idempotent
         [of "snd (create_constraints no_faults 0 example_world)" no_faults 0,
          THEN conjunct1, THEN mp, OF p]
  have c: "snd (create_constraints no_faults 0 (snd (create_constraints no_faults 0 example_world)))
           = snd (create_constraints no_faults 0 example_world)" by blast
  from ok c0 a b p c show ?thesis by blast
qed

section \<open>The Graph Loader\<close>

lemma prop_values_append:
  "prop_values l k (ns @ ms) = prop_values l k ns @ prop_values l k ms"
  by (simp add: prop_values_def List.map_filter_def)

lemma set_prop_values:
  "set (prop_values l k ns)
     = {x. \<exists>n \<in> set ns. node_label n = l \<and> map_of (node_props n) k = Some x}"
  by (induction ns) (auto simp: prop_values_def split: option.splits)

lemma prop_values_single:
  "prop_values l k [n]
     = (if node_label n = l then (case map_of (node_props n) k of None \<Rightarrow> [] | Some x \<Rightarrow> [x])
        else [])"
  by (simp add: prop_values_def List.map_filter_def split: option.splits)

lemma match_nodes_append:
  "match_nodes l v (g\<lparr>nodes := nodes g @ ms\<rparr>)
     = match_nodes l v g @ match_nodes l v (g\<lparr>nodes := ms\<rparr>)"
  by (simp add: match_nodes_def)

lemma match_nodes_cong:
  "nodes g = nodes g' \<Longrightarrow> match_nodes l v g = match_nodes l v g'"
  by (simp add: match_nodes_def)

lemma match_nodes_empty_iff:
  "match_nodes l v g = [] \<longleftrightarrow> PInt v \<notin> set (prop_values l ''id'' (nodes g))"
  by (auto simp: match_nodes_def set_prop_values filter_empty_conv)

lemma filter_unique:
  "distinct (prop_values l k ns) \<Longrightarrow>
     length (filter (\<lambda>n. node_label n = l \<and> map_of (node_props n) k = Some x) ns) \<le> 1"
proof (induction ns)
  case Nil
  then show ?case by simp
next
  case (Cons n ns)
  have pv: "prop_values l k (n # ns) = prop_values l k [n] @ prop_values l k ns"
    using prop_values_append[of l k "[n]" ns] by simp
  from Cons.prems have d: "distinct (prop_values l k ns)" unfolding pv by simp
  show ?case
  proof (cases "node_label n = l \<and> map_of (node_props n) k = Some x")
    case True
    with Cons.prems have "x \<notin> set (prop_values l k ns)"
      unfolding pv by (simp add: prop_values_single)
    then have "filter (\<lambda>n. node_label n = l \<and> map_of (node_props n) k = Some x) ns = []"
      by (auto simp: set_prop_values filter_empty_conv)
    with True show ?thesis by simp
  next
    case False
    with Cons.IH[OF d] show ?thesis by auto
  qed
qed

lemma match_nodes_unique:
  "distinct (prop_values l ''id'' (nodes g)) \<Longrightarrow> length (match_nodes l v g) \<le> 1"
  using filter_unique[of l "''id''" "nodes g" "PInt v"] by (simp add: match_nodes_def)

lemma create_node_Inr:
  assumes "create_node l ps g = Inr (g', n)"
  shows "n = next_id g"
    and "nodes g' = nodes g @ [\<lparr>node_id = n, node_label = l, node_props = ps\<rparr>]"
    and "rels g' = rels g" and "next_id g' = Suc (next_id g)"
    and "constraints g' = constraints g"
  using assms by (auto simp: create_node_def split: option.splits)

lemma merge_rel_simps:
  "nodes (merge_rel a ty b g) = nodes g"
  "next_id (merge_rel a ty b g) = next_id g"
  "constraints (merge_rel a ty b g) = constraints g"
  "set (rels (merge_rel a ty b g))
     = insert \<lparr>rel_src = a, rel_type = ty, rel_dst = b\<rparr> (set (rels g))"
  by (auto simp: merge_rel_def)


lemma match_nodes_snoc_other:
  "node_label n \<noteq> l \<Longrightarrow> nodes g' = nodes g @ [n] \<Longrightarrow> match_nodes l v g' = match_nodes l v g"
  by (simp add: match_nodes_def)

lemma prop_values_snoc_other:
  "node_label n \<noteq> l \<Longrightarrow> prop_values l k (ns @ [n]) = prop_values l k ns"
  by (simp add: prop_values_append prop_values_single)

lemma ids_fresh_iff: "ids_fresh g \<longleftrightarrow> (\<forall>n \<in> set (nodes g). node_id n < next_id g)"
  by (simp add: ids_fresh_def list_all_iff)

lemma merge_node_Inr:
  assumes "merge_node l v g = Inr (g', ns)" and "distinct (prop_values l ''id'' (nodes g))"
  obtains n where "ns = [n]" "match_nodes l v g' = [n]" "rels g' = rels g"
    "constraints g' = constraints g"
    "(match_nodes l v g = [n] \<and> g' = g)
     \<or> (match_nodes l v g = [] \<and> n = next_id g
         \<and> nodes g' = nodes g @ [\<lparr>node_id = n, node_label = l, node_props = [(''id'', PInt v)]\<rparr>]
         \<and> next_id g' = Suc (next_id g))"
proof (cases "match_nodes l v g = []")
  case False
  with assms(1) have e: "g' = g" "ns = match_nodes l v g" by (auto simp: merge_node_def)
  from match_nodes_unique[OF assms(2), of v] False obtain n where "match_nodes l v g = [n]"
    by (cases "match_nodes l v g") auto
  with e that show ?thesis by auto
next
  case True
  with assms(1) obtain n where c: "create_node l [(''id'', PInt v)] g = Inr (g', n)" "ns = [n]"
    by (auto simp: merge_node_def split: sum.splits)
  note f = create_node_Inr[OF c(1)]
  have "match_nodes l v g' = match_nodes l v g @ [n]"
    using f(2) by (simp add: match_nodes_def)
  with True c f that show ?thesis by auto
qed

lemma create_trips_single:
  assumes "create_trips ps [(p, d)] g = Inr g'"
  shows "nodes g' = nodes g @ [\<lparr>node_id = next_id g, node_label = ''Trip'', node_props = ps\<rparr>]"
    and "next_id g' = Suc (next_id g)" and "constraints g' = constraints g"
    and "set (rels g') = insert \<lparr>rel_src = p, rel_type = ''STARTS_TRIP'', rel_dst = next_id g\<rparr>
                           (insert \<lparr>rel_src = next_id g, rel_type = ''ENDS_TRIP'', rel_dst = d\<rparr>
                              (set (rels g)))"
proof -
  from assms obtain g1 t where c: "create_node ''Trip'' ps g = Inr (g1, t)"
    and g': "g' = merge_rel t ''ENDS_TRIP'' d (merge_rel p ''STARTS_TRIP'' t g1)"
    by (auto split: sum.splits)
  note f = create_node_Inr[OF c]
  show "nodes g' = nodes g @ [\<lparr>node_id = next_id g, node_label = ''Trip'', node_props = ps\<rparr>]"
    and "next_id g' = Suc (next_id g)" and "constraints g' = constraints g"
    using f g' by (simp_all add: merge_rel_simps)
  show "set (rels g') = insert \<lparr>rel_src = p, rel_type = ''STARTS_TRIP'', rel_dst = next_id g\<rparr>
                           (insert \<lparr>rel_src = next_id g, rel_type = ''ENDS_TRIP'', rel_dst = d\<rparr>
                              (set (rels g)))"
    using f g' by (auto simp: merge_rel_simps)
qed


lemma merge_node_nodes:
  assumes "merge_node l v g = Inr (g', ns)" and "distinct (prop_values l ''id'' (nodes g))"
  obtains mid where "nodes g' = nodes g @ mid" "\<forall>n \<in> set mid. node_label n = l"
    "length mid = (if match_nodes l v g = [] then 1 else 0)"
    "\<forall>n \<in> set mid. node_id n = next_id g" "next_id g \<le> next_id g'"
    "next_id g' = next_id g + length mid"
    "distinct (prop_values l ''id'' (nodes g'))"
proof -
  from merge_node_Inr[OF assms] obtain n where n: "ns = [n]"
    "(match_nodes l v g = [n] \<and> g' = g)
     \<or> (match_nodes l v g = [] \<and> n = next_id g
         \<and> nodes g' = nodes g @ [\<lparr>node_id = n, node_label = l, node_props = [(''id'', PInt v)]\<rparr>]
         \<and> next_id g' = Suc (next_id g))"
    by blast
  from n(2) show ?thesis
  proof
    assume "match_nodes l v g = [n] \<and> g' = g"
    with assms(2) that[of "[]"] show ?thesis by simp
  next
    assume a: "match_nodes l v g = [] \<and> n = next_id g
         \<and> nodes g' = nodes g @ [\<lparr>node_id = n, node_label = l, node_props = [(''id'', PInt v)]\<rparr>]
         \<and> next_id g' = Suc (next_id g)"
    then have "PInt v \<notin> set (prop_values l ''id'' (nodes g))"
      by (simp add: match_nodes_empty_iff)
    with a assms(2) have "distinct (prop_values l ''id'' (nodes g'))"
      by (simp add: prop_values_append prop_values_single)
    with a that[of "[\<lparr>node_id = n, node_label = l, node_props = [(''id'', PInt v)]\<rparr>]"]
    show ?thesis by simp
  qed
qed

lemma prop_values_other_labels:
  "\<forall>n \<in> set mid. node_label n \<noteq> l \<Longrightarrow> prop_values l k (ns @ mid) = prop_values l k ns"
  by (induction mid rule: rev_induct)
     (simp_all add: prop_values_append prop_values_single flip: append_assoc)

lemma match_nodes_other_labels:
  "\<forall>n \<in> set mid. node_label n \<noteq> l \<Longrightarrow> nodes g' = nodes g @ mid \<Longrightarrow>
     match_nodes l v g' = match_nodes l v g"
  by (auto simp: match_nodes_def filter_empty_conv)


lemma load_row_effect:
  assumes lu: "locations_unique g" and fr: "ids_fresh g" and ok: "load_row L row g = Inr g'"
  obtains pz dz p d t mid where
    "Option.bind (row ''PULocationID'') (toInteger L) = Some pz"
    "Option.bind (row ''DOLocationID'') (toInteger L) = Some dz"
    "match_nodes ''PickupLocation'' pz g' = [p]"
    "match_nodes ''DropoffLocation'' dz g' = [d]"
    "match_nodes ''PickupLocation'' pz g = [] \<or> match_nodes ''PickupLocation'' pz g = [p]"
    "match_nodes ''DropoffLocation'' dz g = [] \<or> match_nodes ''DropoffLocation'' dz g = [d]"
    "next_id g \<le> t" "t < next_id g'"
    "nodes g' = nodes g @ mid
                @ [\<lparr>node_id = t, node_label = ''Trip'', node_props = trip_props L row\<rparr>]"
    "\<forall>n \<in> set mid. node_label n \<noteq> ''Trip'' \<and> next_id g \<le> node_id n \<and> node_id n < t"
    "length mid = (if match_nodes ''PickupLocation'' pz g = [] then 1 else 0)
                  + (if match_nodes ''DropoffLocation'' dz g = [] then 1 else 0)"
    "set (rels g')
       = insert \<lparr>rel_src = p, rel_type = ''STARTS_TRIP'', rel_dst = t\<rparr>
           (insert \<lparr>rel_src = t, rel_type = ''ENDS_TRIP'', rel_dst = d\<rparr> (set (rels g)))"
    "locations_unique g'" "ids_fresh g'" "constraints g' = constraints g"
proof -
  from ok obtain pz g1 ps dz g2 ds where
    pz: "Option.bind (row ''PULocationID'') (toInteger L) = Some pz"
    and m1: "merge_node ''PickupLocation'' pz g = Inr (g1, ps)"
    and dz: "Option.bind (row ''DOLocationID'') (toInteger L) = Some dz"
    and m2: "merge_node ''DropoffLocation'' dz g1 = Inr (g2, ds)"
    and ct: "create_trips (trip_props L row) (List.product ps ds) g2 = Inr g'"
    by (auto simp: load_row_def split: option.splits sum.splits prod.splits)
  from lu have dp: "distinct (prop_values ''PickupLocation'' ''id'' (nodes g))"
    and dd: "distinct (prop_values ''DropoffLocation'' ''id'' (nodes g))"
    by (simp_all add: locations_unique_def)
  from merge_node_Inr[OF m1 dp] obtain p where p: "ps = [p]"
    "match_nodes ''PickupLocation'' pz g1 = [p]" "rels g1 = rels g"
    "constraints g1 = constraints g"
    "match_nodes ''PickupLocation'' pz g = [p] \<or> match_nodes ''PickupLocation'' pz g = []"
    by blast
  obtain mid1 where mid1: "nodes g1 = nodes g @ mid1"
    "\<forall>n \<in> set mid1. node_label n = ''PickupLocation''"
    "length mid1 = (if match_nodes ''PickupLocation'' pz g = [] then 1 else 0)"
    "\<forall>n \<in> set mid1. node_id n = next_id g" "next_id g1 = next_id g + length mid1"
    "distinct (prop_values ''PickupLocation'' ''id'' (nodes g1))"
    by (rule merge_node_nodes[OF m1 dp], rule that)
  have dd1: "distinct (prop_values ''DropoffLocation'' ''id'' (nodes g1))"
    using dd mid1(1,2) by (simp add: prop_values_other_labels)
  have md1: "match_nodes ''DropoffLocation'' dz g1 = match_nodes ''DropoffLocation'' dz g"
    using mid1(1,2) by (intro match_nodes_other_labels[of mid1]) auto
  from merge_node_Inr[OF m2 dd1] obtain d where d: "ds = [d]"
    "match_nodes ''DropoffLocation'' dz g2 = [d]" "rels g2 = rels g1"
    "constraints g2 = constraints g1"
    "match_nodes ''DropoffLocation'' dz g1 = [d] \<or> match_nodes ''DropoffLocation'' dz g1 = []"
    by blast
  obtain mid2 where mid2: "nodes g2 = nodes g1 @ mid2"
    "\<forall>n \<in> set mid2. node_label n = ''DropoffLocation''"
    "length mid2 = (if match_nodes ''DropoffLocation'' dz g1 = [] then 1 else 0)"
    "\<forall>n \<in> set mid2. node_id n = next_id g1" "next_id g2 = next_id g1 + length mid2"
    "distinct (prop_values ''DropoffLocation'' ''id'' (nodes g2))"
    by (rule merge_node_nodes[OF m2 dd1], rule that)
  have dp2: "distinct (prop_values ''PickupLocation'' ''id'' (nodes g2))"
    using mid1(6) mid2(1,2) by (simp add: prop_values_other_labels)
  have mp2: "match_nodes ''PickupLocation'' pz g2 = [p]"
    using p(2) match_nodes_other_labels[of mid2 "''PickupLocation''" g2 g1 pz] mid2(1,2)
    by auto
  from ct p(1) d(1) have ct1: "create_trips (trip_props L row) [(p, d)] g2 = Inr g'" by simp
  note c = create_trips_single[OF ct1]
  let ?t = "next_id g2"
  let ?tn = "\<lparr>node_id = ?t, node_label = ''Trip'', node_props = trip_props L row\<rparr>"
  have n': "nodes g' = nodes g @ (mid1 @ mid2) @ [?tn]"
    using c(1) mid1(1) mid2(1) by simp
  have mp': "match_nodes ''PickupLocation'' pz g' = [p]"
    using mp2 match_nodes_snoc_other[of ?tn "''PickupLocation''" g' g2 pz] c(1) by simp
  have md': "match_nodes ''DropoffLocation'' dz g' = [d]"
    using d(2) match_nodes_snoc_other[of ?tn "''DropoffLocation''" g' g2 dz] c(1) by simp
  have lu': "locations_unique g'"
    using dp2 mid2(6) c(1) by (simp add: locations_unique_def prop_values_snoc_other)
  have lt: "next_id g \<le> ?t" "?t < next_id g'"
    using mid1(5) mid2(5) c(2) by simp_all
  have midp: "\<forall>n \<in> set (mid1 @ mid2). node_label n \<noteq> ''Trip'' \<and> next_id g \<le> node_id n
                \<and> node_id n < ?t"
  proof
    fix n assume "n \<in> set (mid1 @ mid2)"
    then consider "n \<in> set mid1" | "n \<in> set mid2" by auto
    then show "node_label n \<noteq> ''Trip'' \<and> next_id g \<le> node_id n \<and> node_id n < ?t"
    proof cases
      case 1
      then have "mid1 \<noteq> []" by auto
      with 1 mid1(2,4,5) mid2(5) show ?thesis by (cases mid1) auto
    next
      case 2
      then have "mid2 \<noteq> []" by auto
      with 2 mid2(2,4,5) mid1(5) show ?thesis by (cases mid2) auto
    qed
  qed
  have fr': "ids_fresh g'"
  proof -
    from fr have "\<forall>n \<in> set (nodes g). node_id n < next_id g'"
      using lt by (auto simp: ids_fresh_iff)
    moreover have "\<forall>n \<in> set (mid1 @ mid2). node_id n < next_id g'"
    proof
      fix n assume "n \<in> set (mid1 @ mid2)"
      with midp have "node_id n < next_id g2" by blast
      with lt show "node_id n < next_id g'" by simp
    qed
    ultimately show ?thesis using lt unfolding ids_fresh_iff n' by auto
  qed
  have len: "length (mid1 @ mid2)
      = (if match_nodes ''PickupLocation'' pz g = [] then 1 else 0)
        + (if match_nodes ''DropoffLocation'' dz g = [] then 1 else 0)"
    using mid1(3) mid2(3) md1 by simp
  have r': "set (rels g')
       = insert \<lparr>rel_src = p, rel_type = ''STARTS_TRIP'', rel_dst = ?t\<rparr>
           (insert \<lparr>rel_src = ?t, rel_type = ''ENDS_TRIP'', rel_dst = d\<rparr> (set (rels g)))"
    using c(4) d(3) p(3) by simp
  have cs: "constraints g' = constraints g" using c(3) d(4) p(4) by simp
  from p(5) have pg: "match_nodes ''PickupLocation'' pz g = []
                      \<or> match_nodes ''PickupLocation'' pz g = [p]" by blast
  from d(5) md1 have dg: "match_nodes ''DropoffLocation'' dz g = []
                      \<or> match_nodes ''DropoffLocation'' dz g = [d]" by auto
  from that[OF pz dz mp' md' pg dg lt n' midp len r' lu' fr' cs] show ?thesis .
qed


lemma match_nodes_stable:
  assumes "prefix (nodes g) (nodes g')" and "distinct (prop_values l ''id'' (nodes g'))"
    and "match_nodes l v g = [p]"
  shows "match_nodes l v g' = [p]"
proof -
  from assms(1) obtain ms where ms: "nodes g' = nodes g @ ms" by (auto simp: prefix_def)
  then have "match_nodes l v g' = match_nodes l v g @ match_nodes l v (g\<lparr>nodes := ms\<rparr>)"
    by (simp add: match_nodes_def)
  with assms(3) match_nodes_unique[OF assms(2), of v] show ?thesis by simp
qed

lemma load_row_trip_nodes:
  assumes "nodes g' = nodes g @ mid @ [tn]" and "\<forall>n \<in> set mid. node_label n \<noteq> ''Trip''"
    and "node_label tn = ''Trip''"
  shows "trip_nodes g' = trip_nodes g @ [tn]"
  using assms by (auto simp: trip_nodes_def filter_empty_conv)

lemma load_rows_effect:
  assumes "locations_unique g" and "ids_fresh g" and "load_rows L rows g = Inr g'"
  shows "locations_unique g' \<and> ids_fresh g' \<and> prefix (nodes g) (nodes g')
     \<and> set (rels g) \<subseteq> set (rels g') \<and> next_id g \<le> next_id g'
     \<and> constraints g' = constraints g
     \<and> length (trip_nodes g') = length (trip_nodes g) + length rows
     \<and> (\<forall>row \<in> set rows. \<exists>pz dz p d t.
           Option.bind (row ''PULocationID'') (toInteger L) = Some pz
           \<and> Option.bind (row ''DOLocationID'') (toInteger L) = Some dz
           \<and> match_nodes ''PickupLocation'' pz g' = [p]
           \<and> match_nodes ''DropoffLocation'' dz g' = [d]
           \<and> next_id g \<le> t
           \<and> \<lparr>node_id = t, node_label = ''Trip'', node_props = trip_props L row\<rparr>
                \<in> set (nodes g')
           \<and> \<lparr>rel_src = p, rel_type = ''STARTS_TRIP'', rel_dst = t\<rparr> \<in> set (rels g')
           \<and> \<lparr>rel_src = t, rel_type = ''ENDS_TRIP'', rel_dst = d\<rparr> \<in> set (rels g'))"
  using assms
proof (induction rows arbitrary: g)
  case Nil
  then show ?case by simp
next
  case (Cons row rows)
  from Cons.prems(3) obtain g1 where r1: "load_row L row g = Inr g1"
    and rs: "load_rows L rows g1 = Inr g'"
    by (auto split: sum.splits)
  obtain pz dz p d t mid where e:
    "Option.bind (row ''PULocationID'') (toInteger L) = Some pz"
    "Option.bind (row ''DOLocationID'') (toInteger L) = Some dz"
    "match_nodes ''PickupLocation'' pz g1 = [p]"
    "match_nodes ''DropoffLocation'' dz g1 = [d]"
    "next_id g \<le> t" "t < next_id g1"
    "nodes g1 = nodes g @ mid
                @ [\<lparr>node_id = t, node_label = ''Trip'', node_props = trip_props L row\<rparr>]"
    "\<forall>n \<in> set mid. node_label n \<noteq> ''Trip'' \<and> next_id g \<le> node_id n \<and> node_id n < t"
    "set (rels g1)
       = insert \<lparr>rel_src = p, rel_type = ''STARTS_TRIP'', rel_dst = t\<rparr>
           (insert \<lparr>rel_src = t, rel_type = ''ENDS_TRIP'', rel_dst = d\<rparr> (set (rels g)))"
    "locations_unique g1" "ids_fresh g1" "constraints g1 = constraints g"
    by (rule load_row_effect[OF Cons.prems(1,2) r1], rule that)
  note ih = Cons.IH[OF e(10,11) rs]
  let ?tn = "\<lparr>node_id = t, node_label = ''Trip'', node_props = trip_props L row\<rparr>"
  have lu': "locations_unique g'" and fr': "ids_fresh g'" using ih by blast+
  have pre1: "prefix (nodes g1) (nodes g')" using ih by blast
  have pre: "prefix (nodes g) (nodes g')"
    using pre1 e(7) by (metis append_prefixD)
  have rl: "set (rels g) \<subseteq> set (rels g')" using ih e(9) by auto
  have nx: "next_id g \<le> next_id g'" using ih e(5,6) by simp
  have cs: "constraints g' = constraints g" using ih e(12) by simp
  have tn1: "trip_nodes g1 = trip_nodes g @ [?tn]"
    using e(7,8) by (intro load_row_trip_nodes[of g1 g mid]) auto
  have len: "length (trip_nodes g') = length (trip_nodes g) + length (row # rows)"
    using ih tn1 by simp
  have mp: "match_nodes ''PickupLocation'' pz g' = [p]"
    using lu' by (intro match_nodes_stable[OF pre1 _ e(3)]) (simp add: locations_unique_def)
  have md: "match_nodes ''DropoffLocation'' dz g' = [d]"
    using lu' by (intro match_nodes_stable[OF pre1 _ e(4)]) (simp add: locations_unique_def)
  have tin: "?tn \<in> set (nodes g')"
    using pre1 e(7) by (auto simp: prefix_def)
  have r1in: "\<lparr>rel_src = p, rel_type = ''STARTS_TRIP'', rel_dst = t\<rparr> \<in> set (rels g')"
    and r2in: "\<lparr>rel_src = t, rel_type = ''ENDS_TRIP'', rel_dst = d\<rparr> \<in> set (rels g')"
    using ih e(9) by auto
  have here: "\<exists>pz dz p d t.
           Option.bind (row ''PULocationID'') (toInteger L) = Some pz
           \<and> Option.bind (row ''DOLocationID'') (toInteger L) = Some dz
           \<and> match_nodes ''PickupLocation'' pz g' = [p]
           \<and> match_nodes ''DropoffLocation'' dz g' = [d]
           \<and> next_id g \<le> t
           \<and> \<lparr>node_id = t, node_label = ''Trip'', node_props = trip_props L row\<rparr>
                \<in> set (nodes g')
           \<and> \<lparr>rel_src = p, rel_type = ''STARTS_TRIP'', rel_dst = t\<rparr> \<in> set (rels g')
           \<and> \<lparr>rel_src = t, rel_type = ''ENDS_TRIP'', rel_dst = d\<rparr> \<in> set (rels g')"
    using e(1,2,5) mp md tin r1in r2in by blast
  have later: "\<exists>pz dz p d t.
           Option.bind (r ''PULocationID'') (toInteger L) = Some pz
           \<and> Option.bind (r ''DOLocationID'') (toInteger L) = Some dz
           \<and> match_nodes ''PickupLocation'' pz g' = [p]
           \<and> match_nodes ''DropoffLocation'' dz g' = [d]
           \<and> next_id g \<le> t
           \<and> \<lparr>node_id = t, node_label = ''Trip'', node_props = trip_props L r\<rparr>
                \<in> set (nodes g')
           \<and> \<lparr>rel_src = p, rel_type = ''STARTS_TRIP'', rel_dst = t\<rparr> \<in> set (rels g')
           \<and> \<lparr>rel_src = t, rel_type = ''ENDS_TRIP'', rel_dst = d\<rparr> \<in> set (rels g')"
    if "r \<in> set rows" for r
  proof -
    from ih that obtain pz dz p d t where
      "Option.bind (r ''PULocationID'') (toInteger L) = Some pz"
      "Option.bind (r ''DOLocationID'') (toInteger L) = Some dz"
      "match_nodes ''PickupLocation'' pz g' = [p]"
      "match_nodes ''DropoffLocation'' dz g' = [d]"
      "next_id g1 \<le> t"
      "\<lparr>node_id = t, node_label = ''Trip'', node_props = trip_props L r\<rparr> \<in> set (nodes g')"
      "\<lparr>rel_src = p, rel_type = ''STARTS_TRIP'', rel_dst = t\<rparr> \<in> set (rels g')"
      "\<lparr>rel_src = t, rel_type = ''ENDS_TRIP'', rel_dst = d\<rparr> \<in> set (rels g')"
      by meson
    moreover from this(5) e(5,6) have "next_id g \<le> t" by simp
    ultimately show ?thesis by blast
  qed
  from lu' fr' pre rl nx cs len here later show ?case by auto
qed


lemma failed_load_leaves_wiped_store:
  "fst (load_transform_file L flt self p w) = Inl e \<Longrightarrow>
   history (snd (load_transform_file L flt self p w)) = history w @ [FILTERED, STAGED, WIPE_DONE] \<Longrightarrow>
     nodes (db (snd (load_transform_file L flt self p w))) = []
     \<and> rels (db (snd (load_transform_file L flt self p w))) = []"
  unfolding pipeline_defs detach_delete_all_def
  by (auto split: if_splits sum.splits option.splits prod.splits)

text \<open>
  C4. The load runs as one transaction of \<open>execute_write\<close>: when it raises, the store
  is exactly as before. When it returns, on a store whose location nodes are unique by
  \<open>id\<close> (as the wipe leaves it), the whole staged file has been loaded, and for each
  of its rows there is one PickupLocation node with the integer of the row's pickup
  zone and one DropoffLocation node with the integer of its dropoff zone (found, or
  created when absent), a Trip node that was not in the store before with the row's
  properties, a \<open>STARTS_TRIP\<close> relationship from the pickup node to the Trip node and an
  \<open>ENDS_TRIP\<close> relationship from the Trip node to the dropoff node; the number of Trip
  nodes grows by the number of rows. The properties of the Trip node are the two
  timestamp strings and the two floats that \<open>toFloat\<close> reads. In the pipeline, a
  load that fails after the wipe leaves a store without nodes and relationships: nothing
  of the batch is written.
\<close>

theorem graph_loader_transaction:
  "(execute_write (insert_data L fs name) g = (Inl e, g') \<longrightarrow> g' = g)
   \<and> (locations_unique g \<and> ids_fresh g
        \<and> execute_write (insert_data L fs name) g = (Inr (), g') \<longrightarrow>
        (\<exists>f. fs (path_join neo4j_import_dir name) = Some f
           \<and> load_rows L (map (row_of (csv_header f)) (csv_rows f)) g = Inr g'
           \<and> length (trip_nodes g') = length (trip_nodes g) + length (csv_rows f)
           \<and> constraints g' = constraints g
           \<and> (\<forall>cells \<in> set (csv_rows f). \<exists>pz dz p d t.
                 Option.bind (row_of (csv_header f) cells ''PULocationID'') (toInteger L) = Some pz
                 \<and> Option.bind (row_of (csv_header f) cells ''DOLocationID'') (toInteger L) = Some dz
                 \<and> match_nodes ''PickupLocation'' pz g' = [p]
                 \<and> match_nodes ''DropoffLocation'' dz g' = [d]
                 \<and> t \<notin> node_id ` set (nodes g)
                 \<and> \<lparr>node_id = t, node_label = ''Trip'',
                      node_props = trip_props L (row_of (csv_header f) cells)\<rparr> \<in> set (nodes g')
                 \<and> \<lparr>rel_src = p, rel_type = ''STARTS_TRIP'', rel_dst = t\<rparr> \<in> set (rels g')
                 \<and> \<lparr>rel_src = t, rel_type = ''ENDS_TRIP'', rel_dst = d\<rparr> \<in> set (rels g'))))
   \<and> (row ''tpep_pickup_datetime'' = Some a \<and> row ''tpep_dropoff_datetime'' = Some b
        \<and> Option.bind (row ''trip_distance'') (toFloat L) = Some x
        \<and> Option.bind (row ''fare_amount'') (toFloat L) = Some y \<longrightarrow>
        trip_props L row = [(''pickup_datetime'', PStr a), (''dropoff_datetime'', PStr b),
                            (''trip_distance'', PFloat x), (''fare_amount'', PFloat y)])
   \<and> (fst (load_transform_file L flt self p w) = Inl e
        \<and> history (snd (load_transform_file L flt self p w))
            = history w @ [FILTERED, STAGED, WIPE_DONE] \<longrightarrow>
        nodes (db (snd (load_transform_file L flt self p w))) = []
        \<and> rels (db (snd (load_transform_file L flt self p w))) = [])"
proof (intro conjI impI)
  assume "execute_write (insert_data L fs name) g = (Inl e, g')"
  then show "g' = g" by (auto simp: execute_write_def split: sum.splits)
next
  assume h: "locations_unique g \<and> ids_fresh g
        \<and> execute_write (insert_data L fs name) g = (Inr (), g')"
  then have lu: "locations_unique g" and fr: "ids_fresh g" by blast+
  from h have "insert_data L fs name g = Inr g'"
    by (auto simp: execute_write_def split: sum.splits)
  then obtain f where f: "fs (path_join neo4j_import_dir name) = Some f"
    and lr: "load_rows L (map (row_of (csv_header f)) (csv_rows f)) g = Inr g'"
    by (auto simp: insert_data_def split: option.splits)
  note eff = load_rows_effect[OF lu fr lr]
  have len: "length (trip_nodes g') = length (trip_nodes g) + length (csv_rows f)"
    using eff by simp
  have cs: "constraints g' = constraints g" using eff by blast
  have rows: "\<exists>pz dz p d t.
                 Option.bind (row_of (csv_header f) cells ''PULocationID'') (toInteger L) = Some pz
                 \<and> Option.bind (row_of (csv_header f) cells ''DOLocationID'') (toInteger L) = Some dz
                 \<and> match_nodes ''PickupLocation'' pz g' = [p]
                 \<and> match_nodes ''DropoffLocation'' dz g' = [d]
                 \<and> t \<notin> node_id ` set (nodes g)
                 \<and> \<lparr>node_id = t, node_label = ''Trip'',
                      node_props = trip_props L (row_of (csv_header f) cells)\<rparr> \<in> set (nodes g')
                 \<and> \<lparr>rel_src = p, rel_type = ''STARTS_TRIP'', rel_dst = t\<rparr> \<in> set (rels g')
                 \<and> \<lparr>rel_src = t, rel_type = ''ENDS_TRIP'', rel_dst = d\<rparr> \<in> set (rels g')"
    if "cells \<in> set (csv_rows f)" for cells
  proof -
    from that have "row_of (csv_header f) cells \<in> set (map (row_of (csv_header f)) (csv_rows f))"
      by simp
    with eff obtain pz dz p d t where r:
      "Option.bind (row_of (csv_header f) cells ''PULocationID'') (toInteger L) = Some pz"
      "Option.bind (row_of (csv_header f) cells ''DOLocationID'') (toInteger L) = Some dz"
      "match_nodes ''PickupLocation'' pz g' = [p]"
      "match_nodes ''DropoffLocation'' dz g' = [d]"
      "next_id g \<le> t"
      "\<lparr>node_id = t, node_label = ''Trip'',
         node_props = trip_props L (row_of (csv_header f) cells)\<rparr> \<in> set (nodes g')"
      "\<lparr>rel_src = p, rel_type = ''STARTS_TRIP'', rel_dst = t\<rparr> \<in> set (rels g')"
      "\<lparr>rel_src = t, rel_type = ''ENDS_TRIP'', rel_dst = d\<rparr> \<in> set (rels g')"
      by meson
    from fr r(5) have "t \<notin> node_id ` set (nodes g)" by (auto simp: ids_fresh_iff)
    with r show ?thesis by blast
  qed
  from f lr len cs rows
  show "\<exists>f. fs (path_join neo4j_import_dir name) = Some f
           \<and> load_rows L (map (row_of (csv_header f)) (csv_rows f)) g = Inr g'
           \<and> length (trip_nodes g') = length (trip_nodes g) + length (csv_rows f)
           \<and> constraints g' = constraints g
           \<and> (\<forall>cells \<in> set (csv_rows f). \<exists>pz dz p d t.
                 Option.bind (row_of (csv_header f) cells ''PULocationID'') (toInteger L) = Some pz
                 \<and> Option.bind (row_of (csv_header f) cells ''DOLocationID'') (toInteger L) = Some dz
                 \<and> match_nodes ''PickupLocation'' pz g' = [p]
                 \<and> match_nodes ''DropoffLocation'' dz g' = [d]
                 \<and> t \<notin> node_id ` set (nodes g)
                 \<and> \<lparr>node_id = t, node_label = ''Trip'',
                      node_props = trip_props L (row_of (csv_header f) cells)\<rparr> \<in> set (nodes g')
                 \<and> \<lparr>rel_src = p, rel_type = ''STARTS_TRIP'', rel_dst = t\<rparr> \<in> set (rels g')
                 \<and> \<lparr>rel_src = t, rel_type = ''ENDS_TRIP'', rel_dst = d\<rparr> \<in> set (rels g'))"
    by blast
next
  assume "row ''tpep_pickup_datetime'' = Some a \<and> row ''tpep_dropoff_datetime'' = Some b
        \<and> Option.bind (row ''trip_distance'') (toFloat L) = Some x
        \<and> Option.bind (row ''fare_amount'') (toFloat L) = Some y"
  then show "trip_props L row = [(''pickup_datetime'', PStr a), (''dropoff_datetime'', PStr b),
                            (''trip_distance'', PFloat x), (''fare_amount'', PFloat y)]"
    by (simp add: trip_props_def)
next
  assume "fst (load_transform_file L flt self p w) = Inl e
        \<and> history (snd (load_transform_file L flt self p w))
            = history w @ [FILTERED, STAGED, WIPE_DONE]"
  then show "nodes (db (snd (load_transform_file L flt self p w))) = []"
    and "rels (db (snd (load_transform_file L flt self p w))) = []"
    using failed_load_leaves_wiped_store[of L flt self p w e] by blast+
qed


theorem graph_loader_transaction_witness:
  "locations_unique wiped_store \<and> ids_fresh wiped_store
   \<and> fst (execute_write (insert_data example_lib example_fs ''trips.csv'') wiped_store) = Inr ()
   \<and> length (trip_nodes
         (snd (execute_write (insert_data example_lib example_fs ''trips.csv'') wiped_store))) = 2
   \<and> match_nodes ''PickupLocation'' 3
         (snd (execute_write (insert_data example_lib example_fs ''trips.csv'') wiped_store)) = [1]
   \<and> fst (execute_write (insert_data example_lib example_fs ''twice.csv'') wiped_store)
       = Inl (ConstraintValidationFailed ''Trip'' ''pickup_datetime'')
   \<and> snd (execute_write (insert_data example_lib example_fs ''twice.csv'') wiped_store)
       = wiped_store"
proof -
  let ?r = "execute_write (insert_data example_lib example_fs ''trips.csv'') wiped_store"
  let ?q = "execute_write (insert_data example_lib example_fs ''twice.csv'') wiped_store"
  have lu: "locations_unique wiped_store" and fr: "ids_fresh wiped_store"
    by (simp_all add: locations_unique_def ids_fresh_def wiped_store_def prop_values_def)
  have ok: "fst ?r = Inr ()" by code_simp
  then have eq: "?r = (Inr (), snd ?r)" by (metis prod.collapse)
  have m: "match_nodes ''PickupLocation'' 3 (snd ?r) = [1]" by code_simp
  have fs: "example_fs (path_join neo4j_import_dir ''trips.csv'') = Some staged_example"
    by (simp add: example_fs_def path_join_def)
  have t0: "trip_nodes wiped_store = []" by (simp add: trip_nodes_def wiped_store_def)
  have n2: "length (csv_rows staged_example) = 2" by (simp add: staged_example_def)
  from graph_loader_transaction
         [where L = example_lib and fs = example_fs and name = "''trips.csv''"
            and g = wiped_store and g' = "snd ?r", THEN conjunct2, THEN conjunct1]
       lu fr eq
  obtain f where f: "example_fs (path_join neo4j_import_dir ''trips.csv'') = Some f"
    "length (trip_nodes (snd ?r)) = length (trip_nodes wiped_store) + length (csv_rows f)"
    by blast
  from f fs t0 n2 have len: "length (trip_nodes (snd ?r)) = 2" by simp
  have bad: "fst ?q = Inl (ConstraintValidationFailed ''Trip'' ''pickup_datetime'')" by code_simp
  then have eq2: "?q = (Inl (ConstraintValidationFailed ''Trip'' ''pickup_datetime''), snd ?q)"
    by (metis prod.collapse)
  from graph_loader_transaction
         [where L = example_lib and fs = example_fs and name = "''twice.csv''"
            and g = wiped_store and g' = "snd ?q"
            and e = "ConstraintValidationFailed ''Trip'' ''pickup_datetime''", THEN conjunct1]
       eq2
  have un: "snd ?q = wiped_store" by blast
  from lu fr ok len m bad un show ?thesis by blast
qed

section \<open>The order of the stages on the store and the files\<close>

lemma create_node_constraints:
  "create_node l ps g = Inr (g', n) \<Longrightarrow> constraints g' = constraints g"
  by (auto simp: create_node_def split: option.splits)

lemma merge_node_constraints:
  "merge_node l v g = Inr (g', ns) \<Longrightarrow> constraints g' = constraints g"
  by (auto simp: merge_node_def split: if_splits sum.splits dest: create_node_constraints)

lemma create_trips_constraints:
  "create_trips ps pds g = Inr g' \<Longrightarrow> constraints g' = constraints g"
proof (induction ps pds g rule: create_trips.induct)
  case (1 ps g)
  then show ?case by simp
next
  case (2 ps p d pds g)
  from "2.prems" obtain g1 t where c: "create_node ''Trip'' ps g = Inr (g1, t)"
    and r: "create_trips ps pds (merge_rel t ''ENDS_TRIP'' d (merge_rel p ''STARTS_TRIP'' t g1)) = Inr g'"
    by (auto split: sum.splits)
  from "2.IH"[OF c refl r] create_node_constraints[OF c] show ?case
    by (simp add: merge_rel_simps)
qed

lemma load_row_constraints:
  "load_row L row g = Inr g' \<Longrightarrow> constraints g' = constraints g"
  unfolding load_row_def
  by (auto split: option.splits sum.splits prod.splits
           dest!: merge_node_constraints create_trips_constraints)

lemma load_rows_constraints:
  "load_rows L rows g = Inr g' \<Longrightarrow> constraints g' = constraints g"
  by (induction rows arbitrary: g) (auto split: sum.splits dest!: load_row_constraints)

lemma insert_data_constraints:
  "insert_data L fs n g = Inr g' \<Longrightarrow> constraints g' = constraints g"
  by (auto simp: insert_data_def split: option.splits dest: load_rows_constraints)

lemma setup_error_disjoint:
  "raised_in_setup e \<Longrightarrow>
     \<not> raised_before_staged e \<and> e \<noteq> Fault Wipe \<and> \<not> raised_by_load e \<and> e \<noteq> Fault CloseDriver"
  by (cases e) auto

lemma init_outcome:
  "fst (init flt w) = Inl e \<Longrightarrow> raised_in_setup e"
  "fst (init flt w) = Inr self \<Longrightarrow>
     set schema_constraints \<subseteq> set (constraints (db (snd (init flt w))))"
  "csv_files (snd (init flt w)) = csv_files w"
  "parquet_files (snd (init flt w)) = parquet_files w"
  "next_id (db (snd (init flt w))) = next_id (db w)"
  unfolding init_def create_constraints_def driver_new_def session_write_def execute_write_def
    sbind_def sreturn_def guard_def reach_def create_constraint_if_not_exists_def
    schema_constraints_def
  by (auto split: if_splits sum.splits prod.splits)


lemma create_node_load_error:
  "create_node l ps g = Inl e \<Longrightarrow> raised_by_load e"
  by (auto simp: create_node_def split: option.splits)

lemma merge_node_load_error:
  "merge_node l v g = Inl e \<Longrightarrow> raised_by_load e"
  by (auto simp: merge_node_def split: if_splits sum.splits prod.splits
           intro: create_node_load_error)

lemma create_trips_load_error:
  "create_trips ps pds g = Inl e \<Longrightarrow> raised_by_load e"
  by (induction ps pds g rule: create_trips.induct)
     (auto split: sum.splits prod.splits intro: create_node_load_error)

lemma load_row_load_error:
  "load_row L row g = Inl e \<Longrightarrow> raised_by_load e"
  unfolding load_row_def
  by (auto split: option.splits sum.splits prod.splits
           intro: merge_node_load_error create_trips_load_error)

lemma load_rows_load_error:
  "load_rows L rows g = Inl e \<Longrightarrow> raised_by_load e"
  by (induction rows arbitrary: g) (auto split: sum.splits intro: load_row_load_error)

lemma insert_data_load_error:
  "insert_data L fs n g = Inl e \<Longrightarrow> raised_by_load e"
  by (auto simp: insert_data_def split: option.splits intro: load_rows_load_error)

lemma load_transform_file_error_classes:
  "fst (load_transform_file L flt self p w) = Inl e \<Longrightarrow>
     raised_before_staged e \<or> e = Fault Wipe \<or> raised_by_load e"
  unfolding pipeline_defs detach_delete_all_def
  by (auto split: if_splits sum.splits option.splits prod.splits
           intro: insert_data_load_error)


lemma load_transform_file_before_staged:
  "fst (load_transform_file L flt self p w) = Inl e \<Longrightarrow> raised_before_staged e \<Longrightarrow>
     csv_files (snd (load_transform_file L flt self p w)) = csv_files w"
  apply (erule raised_before_staged.elims(2))
  unfolding pipeline_defs detach_delete_all_def
  by (auto simp: insert_data_no_fault
           split: if_splits sum.splits option.splits prod.splits)

lemma load_transform_file_wipe_fails:
  "fst (load_transform_file L flt self p w) = Inl (Fault Wipe) \<Longrightarrow>
     db (snd (load_transform_file L flt self p w)) = db w
     \<and> (\<exists>trips0. parquet_files w p = Some trips0
           \<and> csv_files (snd (load_transform_file L flt self p w))
                (path_join neo4j_import_dir (csv_filename p))
              = Some (to_csv L (filter_engine (str_ts L) trips0)))"
  unfolding pipeline_defs detach_delete_all_def filter_engine_def
  by (auto simp: insert_data_no_fault
           split: if_splits sum.splits option.splits prod.splits)

lemma load_transform_file_load_fails:
  "fst (load_transform_file L flt self p w) = Inl e \<Longrightarrow> raised_by_load e \<Longrightarrow>
     db (snd (load_transform_file L flt self p w)) = (db w)\<lparr>nodes := [], rels := []\<rparr>
     \<and> (\<exists>trips0. parquet_files w p = Some trips0
           \<and> csv_files (snd (load_transform_file L flt self p w))
                (path_join neo4j_import_dir (csv_filename p))
              = Some (to_csv L (filter_engine (str_ts L) trips0)))"
  apply (erule raised_by_load.elims(2))
  unfolding pipeline_defs detach_delete_all_def filter_engine_def
  by (auto split: if_splits sum.splits option.splits prod.splits)

lemma load_transform_file_returns:
  "fst (load_transform_file L flt self p w) = Inr () \<Longrightarrow>
     insert_data L (csv_files (snd (load_transform_file L flt self p w))) (csv_filename p)
       ((db w)\<lparr>nodes := [], rels := []\<rparr>)
     = Inr (db (snd (load_transform_file L flt self p w)))
     \<and> (\<exists>trips0. parquet_files w p = Some trips0
           \<and> csv_files (snd (load_transform_file L flt self p w))
                (path_join neo4j_import_dir (csv_filename p))
              = Some (to_csv L (filter_engine (str_ts L) trips0)))"
  unfolding pipeline_defs detach_delete_all_def filter_engine_def
  by (auto split: if_splits sum.splits option.splits prod.splits)


lemma try_body_history:
  "\<exists>evs. history (snd (try_body L flt w)) = history w @ evs
      \<and> prefix evs [CONSTRAINTS_READY, FILTERED, STAGED, WIPE_DONE, LOADED]
      \<and> (fst (try_body L flt w) = Inr () \<longrightarrow>
            evs = [CONSTRAINTS_READY, FILTERED, STAGED, WIPE_DONE, LOADED])"
  unfolding pipeline_defs
  by (auto split: if_splits sum.splits option.splits prod.splits)

lemma try_body_cases:
  obtains (early) e w1 where "init flt w = (Inl e, w1)" "try_body L flt w = (Inl e, w1)"
  | (failed) self w1 e w2 where "init flt w = (Inr self, w1)"
      "load_transform_file L flt self input_path w1 = (Inl e, w2)"
      "try_body L flt w = (Inl e, w2)"
  | (finished) self w1 w2 where "init flt w = (Inr self, w1)"
      "load_transform_file L flt self input_path w1 = (Inr (), w2)"
      "try_body L flt w = close flt self w2"
proof (cases "init flt w")
  case (Pair r1 w1)
  show ?thesis
  proof (cases r1)
    case (Inl e)
    with Pair early[of e w1] show ?thesis by (simp add: try_body_def sbind_def)
  next
    case (Inr self)
    note i = Pair[unfolded Inr]
    show ?thesis
    proof (cases "load_transform_file L flt self input_path w1")
      case (Pair r2 w2)
      show ?thesis
      proof (cases r2)
        case (Inl e)
        with i Pair failed[of self w1 e w2] show ?thesis by (simp add: try_body_def sbind_def)
      next
        case (Inr u)
        with i Pair finished[of self w1 w2] show ?thesis by (simp add: try_body_def sbind_def)
      qed
    qed
  qed
qed


lemma close_outcome:
  "db (snd (close flt self w)) = db w" "csv_files (snd (close flt self w)) = csv_files w"
  "fst (close flt self w) = Inr () \<or> fst (close flt self w) = Inl (Fault CloseDriver)"
  by (auto simp: close_def)

text \<open>
  C2, amended. The stages of an attempt run in the order constraint setup, filter,
  stage, wipe, load, as the store and the files show at every point where the attempt
  can end. Every error is one of the constructor, of reading, filtering and staging, of
  the wipe, of the load, or of closing the driver. After an error of the constructor
  the nodes, the relationships and the staged files are as before. After an error of
  reading, filtering or staging the three constraints exist, and the nodes, the
  relationships and the staged files are as before: no wipe has happened. After an
  error of the wipe the constraints exist, the staged file holds the filtered rows of
  the input, and the nodes and relationships are still as before: the filter and the
  staging come before the wipe. After an error of the load the staged file is written
  and the store has no nodes and no relationships: the wipe comes before the load.
  When the load has returned, the store is what the load query makes of the staged file
  on a store without nodes and relationships. The history of the attempt is a prefix of
  the five stages in that order, and all of them when the attempt succeeds.
\<close>

theorem stage_order_of_attempt:
  assumes "try_body L flt w = (r, w')"
  shows
    "(\<forall>e. r = Inl e \<longrightarrow>
        raised_in_setup e \<or> raised_before_staged e \<or> e = Fault Wipe \<or> raised_by_load e
        \<or> e = Fault CloseDriver)
     \<and> (\<forall>e. r = Inl e \<and> raised_in_setup e \<longrightarrow>
          nodes (db w') = nodes (db w) \<and> rels (db w') = rels (db w)
          \<and> csv_files w' = csv_files w)
     \<and> (\<forall>e. r = Inl e \<and> raised_before_staged e \<longrightarrow>
          set schema_constraints \<subseteq> set (constraints (db w'))
          \<and> nodes (db w') = nodes (db w) \<and> rels (db w') = rels (db w)
          \<and> csv_files w' = csv_files w)
     \<and> (r = Inl (Fault Wipe) \<longrightarrow>
          set schema_constraints \<subseteq> set (constraints (db w'))
          \<and> (\<exists>trips0. parquet_files w input_path = Some trips0
                \<and> csv_files w' (path_join neo4j_import_dir (csv_filename input_path))
                   = Some (to_csv L (filter_engine (str_ts L) trips0)))
          \<and> nodes (db w') = nodes (db w) \<and> rels (db w') = rels (db w))
     \<and> (\<forall>e. r = Inl e \<and> raised_by_load e \<longrightarrow>
          set schema_constraints \<subseteq> set (constraints (db w'))
          \<and> (\<exists>trips0. parquet_files w input_path = Some trips0
                \<and> csv_files w' (path_join neo4j_import_dir (csv_filename input_path))
                   = Some (to_csv L (filter_engine (str_ts L) trips0)))
          \<and> nodes (db w') = [] \<and> rels (db w') = [])
     \<and> (r = Inr () \<or> r = Inl (Fault CloseDriver) \<longrightarrow>
          set schema_constraints \<subseteq> set (constraints (db w'))
          \<and> (\<exists>trips0. parquet_files w input_path = Some trips0
                \<and> csv_files w' (path_join neo4j_import_dir (csv_filename input_path))
                   = Some (to_csv L (filter_engine (str_ts L) trips0)))
          \<and> (\<exists>g. set schema_constraints \<subseteq> set (constraints g)
                \<and> nodes g = [] \<and> rels g = [] \<and> next_id g = next_id (db w)
                \<and> insert_data L (csv_files w') (csv_filename input_path) g = Inr (db w')))
     \<and> (\<exists>evs. history w' = history w @ evs
            \<and> prefix evs [CONSTRAINTS_READY, FILTERED, STAGED, WIPE_DONE, LOADED]
            \<and> (r = Inr () \<longrightarrow> evs = [CONSTRAINTS_READY, FILTERED, STAGED, WIPE_DONE, LOADED]))"
proof -
  have hist: "\<exists>evs. history w' = history w @ evs
            \<and> prefix evs [CONSTRAINTS_READY, FILTERED, STAGED, WIPE_DONE, LOADED]
            \<and> (r = Inr () \<longrightarrow> evs = [CONSTRAINTS_READY, FILTERED, STAGED, WIPE_DONE, LOADED])"
    using try_body_history[of L flt w] assms by simp
  have state: "(\<forall>e. r = Inl e \<longrightarrow>
        raised_in_setup e \<or> raised_before_staged e \<or> e = Fault Wipe \<or> raised_by_load e
        \<or> e = Fault CloseDriver)
     \<and> (\<forall>e. r = Inl e \<and> raised_in_setup e \<longrightarrow>
          nodes (db w') = nodes (db w) \<and> rels (db w') = rels (db w)
          \<and> csv_files w' = csv_files w)
     \<and> (\<forall>e. r = Inl e \<and> raised_before_staged e \<longrightarrow>
          set schema_constraints \<subseteq> set (constraints (db w'))
          \<and> nodes (db w') = nodes (db w) \<and> rels (db w') = rels (db w)
          \<and> csv_files w' = csv_files w)
     \<and> (r = Inl (Fault Wipe) \<longrightarrow>
          set schema_constraints \<subseteq> set (constraints (db w'))
          \<and> (\<exists>trips0. parquet_files w input_path = Some trips0
                \<and> csv_files w' (path_join neo4j_import_dir (csv_filename input_path))
                   = Some (to_csv L (filter_engine (str_ts L) trips0)))
          \<and> nodes (db w') = nodes (db w) \<and> rels (db w') = rels (db w))
     \<and> (\<forall>e. r = Inl e \<and> raised_by_load e \<longrightarrow>
          set schema_constraints \<subseteq> set (constraints (db w'))
          \<and> (\<exists>trips0. parquet_files w input_path = Some trips0
                \<and> csv_files w' (path_join neo4j_import_dir (csv_filename input_path))
                   = Some (to_csv L (filter_engine (str_ts L) trips0)))
          \<and> nodes (db w') = [] \<and> rels (db w') = [])
     \<and> (r = Inr () \<or> r = Inl (Fault CloseDriver) \<longrightarrow>
          set schema_constraints \<subseteq> set (constraints (db w'))
          \<and> (\<exists>trips0. parquet_files w input_path = Some trips0
                \<and> csv_files w' (path_join neo4j_import_dir (csv_filename input_path))
                   = Some (to_csv L (filter_engine (str_ts L) trips0)))
          \<and> (\<exists>g. set schema_constraints \<subseteq> set (constraints g)
                \<and> nodes g = [] \<and> rels g = [] \<and> next_id g = next_id (db w)
                \<and> insert_data L (csv_files w') (csv_filename input_path) g = Inr (db w')))"
  proof (cases rule: try_body_cases[of flt w L])
    case (early e w1)
    with assms have rw: "r = Inl e" "w' = w1" by simp_all
    from early(1) have s: "raised_in_setup e" "w1 = snd (init flt w)"
      using init_outcome(1)[of flt w e] by simp_all
    note d = setup_error_disjoint[OF s(1)]
    from init_keeps_graph[of flt w] init_outcome(3)[of flt w] s(2) rw d s(1)
    show ?thesis by auto
  next
    case (failed self w1 e w2)
    with assms have rw: "r = Inl e" "w' = w2" by simp_all
    from failed(1) have w1: "w1 = snd (init flt w)" "fst (init flt w) = Inr self" by simp_all
    from failed(2) have w2: "w2 = snd (load_transform_file L flt self input_path w1)"
      "fst (load_transform_file L flt self input_path w1) = Inl e" by simp_all
    have rdy: "set schema_constraints \<subseteq> set (constraints (db w1))"
      using init_outcome(2)[OF w1(2)] w1(1) by simp
    have i: "nodes (db w1) = nodes (db w)" "rels (db w1) = rels (db w)"
      "csv_files w1 = csv_files w" "parquet_files w1 = parquet_files w"
      using init_keeps_graph[of flt w] init_outcome(3,4)[of flt w] w1(1) by simp_all
    note cls = load_transform_file_error_classes[OF w2(2)]
    have nosetup: "\<not> raised_in_setup e" using cls setup_error_disjoint[of e] by blast
    have noclose: "e \<noteq> Fault CloseDriver" using cls by auto
    have c3: "set schema_constraints \<subseteq> set (constraints (db w2))
          \<and> nodes (db w2) = nodes (db w) \<and> rels (db w2) = rels (db w)
          \<and> csv_files w2 = csv_files w" if "raised_before_staged e"
      using load_transform_file_early_failure[OF w2(2) that]
        load_transform_file_before_staged[OF w2(2) that] w2(1) rdy i by simp
    have c4: "set schema_constraints \<subseteq> set (constraints (db w2))
          \<and> (\<exists>trips0. parquet_files w input_path = Some trips0
                \<and> csv_files w2 (path_join neo4j_import_dir (csv_filename input_path))
                   = Some (to_csv L (filter_engine (str_ts L) trips0)))
          \<and> nodes (db w2) = nodes (db w) \<and> rels (db w2) = rels (db w)" if "e = Fault Wipe"
      using load_transform_file_wipe_fails[of L flt self input_path w1] w2 that rdy i by simp
    have c5: "set schema_constraints \<subseteq> set (constraints (db w2))
          \<and> (\<exists>trips0. parquet_files w input_path = Some trips0
                \<and> csv_files w2 (path_join neo4j_import_dir (csv_filename input_path))
                   = Some (to_csv L (filter_engine (str_ts L) trips0)))
          \<and> nodes (db w2) = [] \<and> rels (db w2) = []" if "raised_by_load e"
      using load_transform_file_load_fails[OF w2(2) that] w2(1) rdy i by simp
    from rw cls nosetup noclose c3 c4 c5 show ?thesis by blast
  next
    case (finished self w1 w2)
    from finished(1) have w1: "w1 = snd (init flt w)" "fst (init flt w) = Inr self" by simp_all
    from finished(2) have w2: "w2 = snd (load_transform_file L flt self input_path w1)"
      "fst (load_transform_file L flt self input_path w1) = Inr ()" by simp_all
    from finished(3) assms have "close flt self w2 = (r, w')" by simp
    then have c: "r = fst (close flt self w2)" "w' = snd (close flt self w2)"
      by simp_all
    have rc: "r = Inr () \<or> r = Inl (Fault CloseDriver)"
      and same: "db w' = db w2" "csv_files w' = csv_files w2"
      using close_outcome[of flt self w2] c by simp_all
    have rdy: "set schema_constraints \<subseteq> set (constraints (db w1))"
      using init_outcome(2)[OF w1(2)] w1(1) by simp
    have i: "parquet_files w1 = parquet_files w" "next_id (db w1) = next_id (db w)"
      using init_outcome(4,5)[of flt w] w1(1) by simp_all
    let ?g = "(db w1)\<lparr>nodes := [], rels := []\<rparr>"
    note ret = load_transform_file_returns[OF w2(2), folded w2(1)]
    from ret have ins: "insert_data L (csv_files w2) (csv_filename input_path) ?g = Inr (db w2)"
      by blast
    from insert_data_constraints[OF ins] rdy
    have rdy2: "set schema_constraints \<subseteq> set (constraints (db w2))" by simp
    have g: "set schema_constraints \<subseteq> set (constraints ?g) \<and> nodes ?g = [] \<and> rels ?g = []
        \<and> next_id ?g = next_id (db w)
        \<and> insert_data L (csv_files w') (csv_filename input_path) ?g = Inr (db w')"
      using rdy i ins same by simp
    have st: "\<exists>trips0. parquet_files w input_path = Some trips0
                \<and> csv_files w' (path_join neo4j_import_dir (csv_filename input_path))
                   = Some (to_csv L (filter_engine (str_ts L) trips0))"
      using ret i same by simp
    have e5: "\<exists>g. set schema_constraints \<subseteq> set (constraints g)
                \<and> nodes g = [] \<and> rels g = [] \<and> next_id g = next_id (db w)
                \<and> insert_data L (csv_files w') (csv_filename input_path) g = Inr (db w')"
      using g by blast
    from rc show ?thesis
    proof
      assume "r = Inr ()"
      with rdy2 same st e5 show ?thesis by simp
    next
      assume "r = Inl (Fault CloseDriver)"
      with rdy2 same st e5 show ?thesis by simp
    qed
  qed
  from state hist show ?thesis by blast
qed


theorem stage_order_of_attempt_witness:
  "fst (try_body example_lib (fail_at ToCsv) example_world) = Inl (Fault ToCsv)
   \<and> raised_before_staged (Fault ToCsv)
   \<and> nodes (db (snd (try_body example_lib (fail_at ToCsv) example_world))) = nodes old_store
   \<and> csv_files (snd (try_body example_lib (fail_at ToCsv) example_world))
       = csv_files example_world
   \<and> fst (try_body example_lib (fail_at Wipe) example_world) = Inl (Fault Wipe)
   \<and> nodes (db (snd (try_body example_lib (fail_at Wipe) example_world))) = nodes old_store
   \<and> csv_files (snd (try_body example_lib (fail_at Wipe) example_world))
         (path_join neo4j_import_dir (csv_filename input_path))
       = Some (to_csv example_lib (filter_engine (\<lambda>s. s) example_trips))
   \<and> fst (try_body example_lib (fail_at InsertData) example_world) = Inl (Fault InsertData)
   \<and> raised_by_load (Fault InsertData)
   \<and> nodes (db (snd (try_body example_lib (fail_at InsertData) example_world))) = []
   \<and> fst (try_body example_lib no_faults example_world) = Inr ()
   \<and> set schema_constraints
        \<subseteq> set (constraints (db (snd (try_body example_lib no_faults example_world))))
   \<and> history (snd (try_body example_lib no_faults example_world))
       = [CONSTRAINTS_READY, FILTERED, STAGED, WIPE_DONE, LOADED]
   \<and> nodes old_store \<noteq> []"
proof -
  let ?a = "try_body example_lib (fail_at ToCsv) example_world"
  let ?b = "try_body example_lib (fail_at Wipe) example_world"
  let ?c = "try_body example_lib (fail_at InsertData) example_world"
  let ?d = "try_body example_lib no_faults example_world"
  have fa: "fst ?a = Inl (Fault ToCsv)" and fb: "fst ?b = Inl (Fault Wipe)"
    and fc: "fst ?c = Inl (Fault InsertData)" and fd: "fst ?d = Inr ()"
    by code_simp+
  have ea: "?a = (Inl (Fault ToCsv), snd ?a)" using fa by (metis prod.collapse)
  have eb: "?b = (Inl (Fault Wipe), snd ?b)" using fb by (metis prod.collapse)
  have ec: "?c = (Inl (Fault InsertData), snd ?c)" using fc by (metis prod.collapse)
  have ed: "?d = (Inr (), snd ?d)" using fd by (metis prod.collapse)
  have o: "db example_world = old_store" "nodes old_store \<noteq> []" "history example_world = []"
    by (simp_all add: example_world_def old_store_def)
  have pf: "parquet_files example_world input_path = Some example_trips"
    by (simp add: example_world_def)
  have st: "str_ts example_lib = (\<lambda>s. s)" by (simp add: example_lib_def)
  have ra: "raised_before_staged (Fault ToCsv)" and rc: "raised_by_load (Fault InsertData)"
    by simp_all
  note ta = stage_order_of_attempt[OF ea, THEN conjunct2, THEN conjunct2, THEN conjunct1,
              THEN spec, of "Fault ToCsv"]
  from ta ra o have a: "nodes (db (snd ?a)) = nodes old_store"
    "csv_files (snd ?a) = csv_files example_world" by simp_all
  note tb = stage_order_of_attempt[OF eb, THEN conjunct2, THEN conjunct2, THEN conjunct2,
              THEN conjunct1]
  from tb o pf st have b: "nodes (db (snd ?b)) = nodes old_store"
    "csv_files (snd ?b) (path_join neo4j_import_dir (csv_filename input_path))
       = Some (to_csv example_lib (filter_engine (\<lambda>s. s) example_trips))"
    by auto
  note tc = stage_order_of_attempt[OF ec, THEN conjunct2, THEN conjunct2, THEN conjunct2,
              THEN conjunct2, THEN conjunct1, THEN spec, of "Fault InsertData"]
  from tc rc have c: "nodes (db (snd ?c)) = []" by simp
  note td = stage_order_of_attempt[OF ed, THEN conjunct2, THEN conjunct2, THEN conjunct2,
              THEN conjunct2, THEN conjunct2]
  from td[THEN conjunct1]
  have d: "set schema_constraints \<subseteq> set (constraints (db (snd ?d)))" by simp
  from td[THEN conjunct2] o
  have h: "history (snd ?d) = [CONSTRAINTS_READY, FILTERED, STAGED, WIPE_DONE, LOADED]"
    by auto
  from fa ra a fb b fc rc c fd d h o(2) show ?thesis by blast
qed

end
